theory Spec2Isabelle
  imports Main "HOL-Library.Sublist"
begin

section \<open>Value model\<close>

text \<open>
  The values \<open>compare_structures\<close> receives are the trees \<open>json.loads\<close> builds: \<open>None\<close>,
  \<open>bool\<close>, \<open>int\<close>, \<open>float\<close>, \<open>str\<close>, \<open>list\<close> and \<open>dict\<close> with string keys. A \<open>dict\<close> is an
  association list in insertion order; a Python dict has every key once (\<open>wf_value\<close> below).
  Python's \<open>int\<close> is unbounded: \<open>int\<close>. A \<open>str\<close> is a \<open>string\<close> whose characters are the code
  points below 256, so that \<open>str.isdigit\<close>, \<open>str.strip\<close> and the pattern \<^verbatim>\<open>\d\<close> are exact on
  them. The payload of a \<open>float\<close> is the type parameter \<open>'f\<close>: what Python computes on floats
  is not defined in the repository and is taken as the record \<open>float_ops\<close>.
\<close>

datatype 'f pyval =
    PNone
  | PBool bool
  | PInt int
  | PFloat 'f
  | PStr string
  | PList "'f pyval list"
  | PDict "(string \<times> 'f pyval) list"

datatype error =
    InvalidInput  \<comment> \<open>the \<open>ValueError\<close> raised by the root check of \<open>compare_structures\<close>\<close>
  | ValueError    \<comment> \<open>a \<open>ValueError\<close> of \<open>int()\<close> that no handler catches\<close>
  | OverflowError \<comment> \<open>\<open>float()\<close> of a huge int, \<open>int()\<close> of an infinite float\<close>

text \<open>
  The float operations of Python the source uses. \<open>float_of_int\<close> is \<open>float(n)\<close> (\<open>None\<close>:
  \<open>OverflowError\<close>), \<open>float_of_str\<close> is \<open>float(s)\<close> (\<open>None\<close>: \<open>ValueError\<close>), \<open>int_of_float\<close> is
  \<open>int(x)\<close> (\<open>ValueError\<close> on a NaN, \<open>OverflowError\<close> on an infinity), \<open>str_of_float\<close> is \<open>str(x)\<close>,
  \<open>float_eq\<close> is \<open>x == y\<close> on two floats and \<open>float_eq_int\<close> is \<open>x == n\<close> of a float and an int.
\<close>

record 'f float_ops =
  float_eq :: "'f \<Rightarrow> 'f \<Rightarrow> bool"
  float_eq_int :: "'f \<Rightarrow> int \<Rightarrow> bool"
  float_of_int :: "int \<Rightarrow> 'f option"
  float_of_str :: "string \<Rightarrow> 'f option"
  int_of_float :: "'f \<Rightarrow> error + int"
  str_of_float :: "'f \<Rightarrow> string"

text \<open>
  An instance for running the model on inputs that hold no float and parse none: its floats
  are the integers.
\<close>

definition int_floats :: "int float_ops" where
  "int_floats = \<lparr> float_eq = (=), float_eq_int = (=), float_of_int = Some,
     float_of_str = (\<lambda>s. None), int_of_float = Inr, str_of_float = (\<lambda>x. []) \<rparr>"

text \<open>
  The same floats with a NaN, written \<open>None\<close>: it differs from every float, itself included,
  and from every int, and \<open>int()\<close> of it raises \<open>ValueError\<close>.
\<close>

definition nan_floats :: "int option float_ops" where
  "nan_floats = \<lparr> float_eq = (\<lambda>x y. x \<noteq> None \<and> x = y), float_eq_int = (\<lambda>x n. x = Some n),
     float_of_int = (\<lambda>n. Some (Some n)), float_of_str = (\<lambda>s. None),
     int_of_float = (\<lambda>x. case x of None \<Rightarrow> Inl ValueError | Some n \<Rightarrow> Inr n),
     str_of_float = (\<lambda>x. []) \<rparr>"

text \<open>\<open>type(v)\<close>. A type group of the configuration holds scalar types.\<close>

datatype scalar_type = NoneType | BoolT | IntT | FloatT | StrT

datatype pytype = Scalar scalar_type | ListT | DictT

fun type_of :: "'f pyval \<Rightarrow> pytype" where
  "type_of PNone = Scalar NoneType"
| "type_of (PBool b) = Scalar BoolT"
| "type_of (PInt n) = Scalar IntT"
| "type_of (PFloat x) = Scalar FloatT"
| "type_of (PStr s) = Scalar StrT"
| "type_of (PList xs) = ListT"
| "type_of (PDict kvs) = DictT"

text \<open>\<open>isinstance(v, (dict, list))\<close>, \<open>isinstance(v, dict)\<close>, \<open>isinstance(v, list)\<close>, \<open>v is None\<close>.\<close>

fun is_container :: "'f pyval \<Rightarrow> bool" where
  "is_container (PList xs) = True"
| "is_container (PDict kvs) = True"
| "is_container v = False"

fun is_dict :: "'f pyval \<Rightarrow> bool" where
  "is_dict (PDict kvs) = True"
| "is_dict v = False"

fun is_list :: "'f pyval \<Rightarrow> bool" where
  "is_list (PList xs) = True"
| "is_list v = False"

fun is_null :: "'f pyval \<Rightarrow> bool" where
  "is_null PNone = True"
| "is_null v = False"

text \<open>
  \<open>isinstance(v, int)\<close> holds of a \<open>bool\<close> too (\<open>bool\<close> is a subclass of \<open>int\<close>, \<open>True == 1\<close>);
  \<open>isinstance(v, (int, float))\<close>; \<open>isinstance(v, str)\<close>.
\<close>

fun is_int :: "'f pyval \<Rightarrow> bool" where
  "is_int (PInt n) = True"
| "is_int (PBool b) = True"
| "is_int v = False"

fun int_val :: "'f pyval \<Rightarrow> int" where
  "int_val (PInt n) = n"
| "int_val (PBool b) = (if b then 1 else 0)"
| "int_val v = 0"

fun is_num :: "'f pyval \<Rightarrow> bool" where
  "is_num (PFloat x) = True"
| "is_num v = is_int v"

fun is_str :: "'f pyval \<Rightarrow> bool" where
  "is_str (PStr s) = True"
| "is_str v = False"

fun str_val :: "'f pyval \<Rightarrow> string" where
  "str_val (PStr s) = s"
| "str_val v = []"

text \<open>
  \<open>a == b\<close>. The source compares two values only where at least one of them is no container
  (a leaf of a map, a list element that is not paired with a container, a scalar pair in
  \<open>_items_match\<close>); a container equals no scalar, and \<open>py_eq\<close> is not used on two containers.
\<close>

fun py_eq :: "'f float_ops \<Rightarrow> 'f pyval \<Rightarrow> 'f pyval \<Rightarrow> bool" where
  "py_eq fo PNone PNone = True"
| "py_eq fo (PStr s) (PStr t) = (s = t)"
| "py_eq fo (PFloat x) (PFloat y) = float_eq fo x y"
| "py_eq fo (PFloat x) b = (is_int b \<and> float_eq_int fo x (int_val b))"
| "py_eq fo a (PFloat y) = (is_int a \<and> float_eq_int fo y (int_val a))"
| "py_eq fo a b = (is_int a \<and> is_int b \<and> int_val a = int_val b)"

section \<open>Strings\<close>

text \<open>
  The characters \<open>str.strip()\<close> removes, among the code points below 256: tab to carriage
  return, the four separators 0x1C to 0x1F, the space, 0x85 and 0xA0.
\<close>

definition is_space :: "char \<Rightarrow> bool" where
  "is_space c = (c \<in> set [CHR 0x09, CHR 0x0A, CHR 0x0B, CHR 0x0C, CHR 0x0D,
     CHR 0x1C, CHR 0x1D, CHR 0x1E, CHR 0x1F, CHR 0x20, CHR 0x85, CHR 0xA0])"

definition strip :: "string \<Rightarrow> string" where
  "strip s = rev (dropWhile is_space (rev (dropWhile is_space s)))"

definition digit_of :: "char \<Rightarrow> nat option" where
  "digit_of = map_of [(CHR ''0'', 0), (CHR ''1'', 1), (CHR ''2'', 2), (CHR ''3'', 3),
     (CHR ''4'', 4), (CHR ''5'', 5), (CHR ''6'', 6), (CHR ''7'', 7), (CHR ''8'', 8),
     (CHR ''9'', 9)]"

text \<open>The pattern \<^verbatim>\<open>\d\<close>: among the code points below 256, the ten ASCII digits.\<close>

definition is_decimal :: "char \<Rightarrow> bool" where
  "is_decimal c = (digit_of c \<noteq> None)"

text \<open>
  \<open>s.isdigit()\<close>: not empty and every character a digit. Superscript two, three and one
  (0xB2, 0xB3, 0xB9) are digits for \<open>isdigit\<close> and are refused by \<open>int()\<close>.
\<close>

definition isdigit :: "string \<Rightarrow> bool" where
  "isdigit s = (s \<noteq> [] \<and> list_all (\<lambda>c. is_decimal c \<or> c \<in> set [CHR 0xB2, CHR 0xB3, CHR 0xB9]) s)"

fun nat_of_digits :: "nat \<Rightarrow> string \<Rightarrow> nat option" where
  "nat_of_digits acc [] = Some acc"
| "nat_of_digits acc (c # cs) =
     (case digit_of c of None \<Rightarrow> None | Some d \<Rightarrow> nat_of_digits (10 * acc + d) cs)"

text \<open>
  \<open>int(s)\<close> of a string: surrounding whitespace, one optional sign, decimal digits with single
  underscores between them. \<open>None\<close> is the \<open>ValueError\<close>. The whitespace \<open>int()\<close> skips is
  not that of \<open>str.strip()\<close>: among the code points below 256 it is tab to carriage return,
  the space, 0x85 and 0xA0, and the four separators 0x1C to 0x1F are refused.
\<close>

definition is_int_space :: "char \<Rightarrow> bool" where
  "is_int_space c = (c \<in> set [CHR 0x09, CHR 0x0A, CHR 0x0B, CHR 0x0C, CHR 0x0D,
     CHR 0x20, CHR 0x85, CHR 0xA0])"

definition int_strip :: "string \<Rightarrow> string" where
  "int_strip s = rev (dropWhile is_int_space (rev (dropWhile is_int_space s)))"

fun underscores_ok :: "string \<Rightarrow> bool" where
  "underscores_ok [] = False"
| "underscores_ok [c] = (c \<noteq> CHR ''_'')"
| "underscores_ok (c # d # cs) =
     (c \<noteq> CHR ''_'' \<and> (if d = CHR ''_'' then cs \<noteq> [] \<and> underscores_ok cs else underscores_ok (d # cs)))"

definition unsigned_of_str :: "string \<Rightarrow> nat option" where
  "unsigned_of_str u =
     (if underscores_ok u then nat_of_digits 0 (filter (\<lambda>c. c \<noteq> CHR ''_'') u) else None)"

definition int_of_str :: "string \<Rightarrow> int option" where
  "int_of_str s =
     (case int_strip s of
        [] \<Rightarrow> None
      | c # r \<Rightarrow>
          if c = CHR ''-'' then map_option (\<lambda>n. - int n) (unsigned_of_str r)
          else if c = CHR ''+'' then map_option int (unsigned_of_str r)
          else map_option int (unsigned_of_str (c # r)))"

text \<open>\<open>str(n)\<close> of an index or an int.\<close>

definition digit_char :: "nat \<Rightarrow> char" where
  "digit_char d = ''0123456789'' ! (d mod 10)"

function str_of_nat :: "nat \<Rightarrow> string" where
  "str_of_nat n = (if n < 10 then [digit_char n] else str_of_nat (n div 10) @ [digit_char n])"
  by pat_completeness auto
termination
  by (relation "measure id") auto

declare str_of_nat.simps [simp del]

definition str_of_int :: "int \<Rightarrow> string" where
  "str_of_int i = (if i < 0 then CHR ''-'' # str_of_nat (nat (- i)) else str_of_nat (nat i))"

section \<open>Configuration and difference records\<close>

text \<open>
  A type group of \<open>ignore_type_in_groups\<close> holds scalar types. \<open>_is_equivalent_value\<close> skips a
  group that is no list and no tuple (a set, say); the other functions only ask \<open>in\<close>.
\<close>

datatype type_group = GroupSeq "scalar_type list" | GroupOther "scalar_type list"

fun members :: "type_group \<Rightarrow> scalar_type list" where
  "members (GroupSeq ts) = ts"
| "members (GroupOther ts) = ts"

text \<open>\<open>t in group\<close> for a type \<open>t = type(v)\<close>.\<close>

definition in_group :: "pytype \<Rightarrow> type_group \<Rightarrow> bool" where
  "in_group t g = (case t of Scalar st \<Rightarrow> st \<in> set (members g) | _ \<Rightarrow> False)"

text \<open>
  \<open>deep_diff_contrast_config\<close>: the key \<open>ignore_order\<close> may be absent (\<open>None\<close>);
  \<open>ignore_type_in_groups\<close> absent and the empty list read the same everywhere
  (\<open>.get(..., [])\<close>, then truthiness). \<open>empty_config\<close> stands for both \<open>None\<close> and \<open>{}\<close>.
\<close>

record config =
  ignore_order :: "bool option"
  ignore_type_in_groups :: "type_group list"

definition empty_config :: config where
  "empty_config = \<lparr> ignore_order = None, ignore_type_in_groups = [] \<rparr>"

definition default_config :: config where
  "default_config = \<lparr> ignore_order = Some True, ignore_type_in_groups = [] \<rparr>"

text \<open>
  The keyword arguments of \<open>compare_structures\<close>. \<open>exclude_fields = []\<close> stands for both \<open>None\<close>
  and the empty set. \<open>open_log\<close> only writes to the log and is left out.
\<close>

record options =
  check_value :: bool
  check_missing :: bool
  check_redundant :: bool
  check_type :: bool
  exclude_fields :: "string list"
  deep_diff_contrast_config :: config

definition default_options :: options where
  "default_options = \<lparr> check_value = True, check_missing = True, check_redundant = False,
     check_type = True, exclude_fields = [], deep_diff_contrast_config = empty_config \<rparr>"

text \<open>
  \<open>exclude_fields = exclude_fields or {"go_article_service"}\<close> and
  \<open>deep_diff_contrast_config = deep_diff_contrast_config or {"ignore_order": True}\<close>.
\<close>

definition normalize_options :: "options \<Rightarrow> options" where
  "normalize_options opts = opts
     \<lparr> exclude_fields :=
         (if exclude_fields opts = [] then [''go_article_service''] else exclude_fields opts),
       deep_diff_contrast_config :=
         (if deep_diff_contrast_config opts = empty_config then default_config
          else deep_diff_contrast_config opts) \<rparr>"

text \<open>
  A difference record is a line of text in the source: a kind in brackets, the path, and a
  rendering of the types or values. The model keeps the kind and the path.
\<close>

datatype diff =
    MissingField string
  | RedundantField string
  | TypeConflict string
  | ValueChanged string
  | ListItemAdded string
  | ListItemRemoved string

fun diff_path :: "diff \<Rightarrow> string" where
  "diff_path (MissingField p) = p"
| "diff_path (RedundantField p) = p"
| "diff_path (TypeConflict p) = p"
| "diff_path (ValueChanged p) = p"
| "diff_path (ListItemAdded p) = p"
| "diff_path (ListItemRemoved p) = p"

text \<open>The results of the iterations of a loop, in order: the first exception ends the loop.\<close>

fun concat_results :: "(error + 'a list) list \<Rightarrow> error + 'a list" where
  "concat_results [] = Inr []"
| "concat_results (r # rs) =
     (case r of
        Inl e \<Rightarrow> Inl e
      | Inr ds \<Rightarrow> (case concat_results rs of Inl e \<Rightarrow> Inl e | Inr ds' \<Rightarrow> Inr (ds @ ds')))"

section \<open>Path matcher\<close>

text \<open>\<open>s.split(".")\<close>.\<close>

fun split_dot :: "string \<Rightarrow> string list" where
  "split_dot [] = [[]]"
| "split_dot (c # cs) =
     (if c = CHR ''.'' then [] # split_dot cs
      else (case split_dot cs of [] \<Rightarrow> [[c]] | p # ps \<Rightarrow> (c # p) # ps))"

text \<open>
  The inner loop of \<open>_should_exclude\<close> over \<open>enumerate(field_parts)\<close>: it breaks with
  \<open>match\<close> still true once \<open>clean_parts\<close> is used up.
\<close>

fun parts_match :: "string list \<Rightarrow> string list \<Rightarrow> bool" where
  "parts_match [] clean_parts = True"
| "parts_match (part # field_parts) [] = True"
| "parts_match (part # field_parts) (clean # clean_parts) =
     (if suffix ''[*]'' part
      then (if clean \<noteq> take (length part - 3) part then False
            else parts_match field_parts clean_parts)
      else if part \<noteq> clean then False
      else parts_match field_parts clean_parts)"

definition should_exclude :: "string \<Rightarrow> string list \<Rightarrow> bool" where
  "should_exclude clean_path excl =
     (let clean_parts = split_dot clean_path in
      list_ex (\<lambda>field.
        let field_parts = split_dot field in
        \<not> length field_parts < length clean_parts \<and> parts_match field_parts clean_parts)
        excl)"

text \<open>
  \<open>_format_path\<close>: \<^verbatim>\<open>re.sub(r"\[\'(\d+)\'\]", r"[\1]", raw_path)\<close>. \<open>quoted_index cs\<close> matches
  \<^verbatim>\<open>'digits']\<close> at the head of \<open>cs\<close> (the text after an opening bracket) and returns the
  digits and the rest.
\<close>

definition quoted_index :: "string \<Rightarrow> (string \<times> string) option" where
  "quoted_index cs =
     (case cs of
        [] \<Rightarrow> None
      | q # r \<Rightarrow>
          if q = CHR 0x27 \<and> takeWhile is_decimal r \<noteq> []
             \<and> take 2 (dropWhile is_decimal r) = [CHR 0x27, CHR '']'']
          then Some (takeWhile is_decimal r, drop 2 (dropWhile is_decimal r))
          else None)"

function format_path :: "string \<Rightarrow> string" where
  "format_path [] = []"
| "format_path (c # cs) =
     (if c = CHR ''[''
      then (case quoted_index cs of
              Some (ds, rest) \<Rightarrow> CHR ''['' # ds @ CHR '']'' # format_path rest
            | None \<Rightarrow> c # format_path cs)
      else c # format_path cs)"
  by pat_completeness auto
termination
proof (relation "measure length")
  fix c cs x2 x y
  assume "quoted_index cs = Some x2" and "(x, y) = x2"
  then obtain r where "cs = CHR 0x27 # r" and "y = drop 2 (dropWhile is_decimal r)"
    by (auto simp: quoted_index_def split: list.splits if_splits)
  moreover have "length (dropWhile is_decimal r) \<le> length r"
    by (rule length_dropWhile_le)
  ultimately have "length y \<le> length cs"
    by simp
  then show "(y, c # cs) \<in> measure length" by simp
qed auto

declare format_path.simps(2) [simp del]

text \<open>\<open>f"{path}.{key}" if path else key\<close>, then \<open>_format_path\<close>; \<open>f"{path}[{i}]"\<close>.\<close>

definition key_path :: "string \<Rightarrow> string \<Rightarrow> string" where
  "key_path path key = format_path (if path \<noteq> [] then path @ ''.'' @ key else key)"

definition index_path :: "string \<Rightarrow> nat \<Rightarrow> string" where
  "index_path path i = path @ ''['' @ str_of_nat i @ '']''"

section \<open>Equivalence engine\<close>

text \<open>\<open>_is_same_type\<close>.\<close>

definition is_same_type :: "'f pyval \<Rightarrow> 'f pyval \<Rightarrow> config \<Rightarrow> bool" where
  "is_same_type origin_val current_val cfg =
     (list_ex (\<lambda>g. in_group (type_of origin_val) g \<and> in_group (type_of current_val) g)
        (ignore_type_in_groups cfg)
      \<or> type_of origin_val = type_of current_val)"

text \<open>
  A conversion inside \<open>try: ... except (ValueError, TypeError)\<close>: it returns a value, raises
  what the handler catches, or raises what it does not catch.
\<close>

datatype 'a attempt = Returned 'a | Caught | Raised error

text \<open>
  \<open>float(v)\<close>, \<open>int(v)\<close> and \<open>str(v)\<close>. \<open>str\<close> of a container is its \<open>repr\<close>; no type group holds
  a container type, so the source never takes it, and \<open>py_str\<close> leaves it empty.
\<close>

fun py_float :: "'f float_ops \<Rightarrow> 'f pyval \<Rightarrow> 'f attempt" where
  "py_float fo (PFloat x) = Returned x"
| "py_float fo (PStr s) = (case float_of_str fo s of None \<Rightarrow> Caught | Some x \<Rightarrow> Returned x)"
| "py_float fo (PInt n) =
     (case float_of_int fo n of None \<Rightarrow> Raised OverflowError | Some x \<Rightarrow> Returned x)"
| "py_float fo (PBool b) =
     (case float_of_int fo (if b then 1 else 0) of
        None \<Rightarrow> Raised OverflowError | Some x \<Rightarrow> Returned x)"
| "py_float fo v = Caught"

fun py_int :: "'f float_ops \<Rightarrow> 'f pyval \<Rightarrow> int attempt" where
  "py_int fo (PInt n) = Returned n"
| "py_int fo (PBool b) = Returned (if b then 1 else 0)"
| "py_int fo (PStr s) = (case int_of_str s of None \<Rightarrow> Caught | Some n \<Rightarrow> Returned n)"
| "py_int fo (PFloat x) =
     (case int_of_float fo x of
        Inr n \<Rightarrow> Returned n
      | Inl e \<Rightarrow> if e = OverflowError then Raised e else Caught)"
| "py_int fo v = Caught"

fun py_str :: "'f float_ops \<Rightarrow> 'f pyval \<Rightarrow> string" where
  "py_str fo PNone = ''None''"
| "py_str fo (PBool b) = (if b then ''True'' else ''False'')"
| "py_str fo (PInt n) = str_of_int n"
| "py_str fo (PFloat x) = str_of_float fo x"
| "py_str fo (PStr s) = s"
| "py_str fo v = []"

text \<open>
  \<open>_is_equivalent_value\<close>. \<open>float(a) == float(b)\<close> inside \<open>try\<close>: \<open>None\<close> is the handler's
  \<open>pass\<close>. \<open>int(s)\<close> of an \<open>isdigit\<close> string and the last two comparisons stand outside every
  handler.
\<close>

definition types_in_same_group :: "type_group list \<Rightarrow> pytype \<Rightarrow> pytype \<Rightarrow> bool" where
  "types_in_same_group type_groups origin_type current_type =
     list_ex (\<lambda>g. case g of
                GroupSeq ts \<Rightarrow> in_group origin_type g \<and> in_group current_type g
              | GroupOther ts \<Rightarrow> False) type_groups"

definition float_equal_try ::
  "'f float_ops \<Rightarrow> 'f pyval \<Rightarrow> 'f pyval \<Rightarrow> (error + bool) option" where
  "float_equal_try fo a b =
     (case py_float fo a of
        Caught \<Rightarrow> None
      | Raised e \<Rightarrow> Some (Inl e)
      | Returned x \<Rightarrow>
          (case py_float fo b of
             Caught \<Rightarrow> None
           | Raised e \<Rightarrow> Some (Inl e)
           | Returned y \<Rightarrow> Some (Inr (float_eq fo x y))))"

definition float_int_equal :: "'f float_ops \<Rightarrow> 'f pyval \<Rightarrow> 'f pyval \<Rightarrow> error + bool" where
  "float_int_equal fo origin_val current_val =
     (if (type_of origin_val = Scalar FloatT \<and> is_int current_val)
         \<or> (is_int origin_val \<and> type_of current_val = Scalar FloatT)
      then (case float_equal_try fo origin_val current_val of
              Some r \<Rightarrow> r
            | None \<Rightarrow> Inl ValueError)
      else Inr False)"

definition is_equivalent_value ::
  "'f float_ops \<Rightarrow> 'f pyval \<Rightarrow> 'f pyval \<Rightarrow> config \<Rightarrow> error + bool" where
  "is_equivalent_value fo origin_val current_val cfg =
     (let type_groups = ignore_type_in_groups cfg in
      if type_groups = [] then Inr False
      else if \<not> types_in_same_group type_groups (type_of origin_val) (type_of current_val)
      then Inr False
      else if (py_eq fo origin_val (PStr []) \<and> py_eq fo current_val (PInt 0))
            \<or> (py_eq fo origin_val (PInt 0) \<and> py_eq fo current_val (PStr []))
      then Inr True
      else if is_str origin_val \<and> isdigit (str_val origin_val) \<and> is_num current_val
      then (case int_of_str (str_val origin_val) of
              None \<Rightarrow> Inl ValueError
            | Some n \<Rightarrow> Inr (py_eq fo (PInt n) current_val))
      else if is_str current_val \<and> isdigit (str_val current_val) \<and> is_num origin_val
      then (case int_of_str (str_val current_val) of
              None \<Rightarrow> Inl ValueError
            | Some n \<Rightarrow> Inr (py_eq fo (PInt n) origin_val))
      else
        (case (if is_str origin_val \<and> is_num current_val
               then float_equal_try fo origin_val current_val else None) of
           Some r \<Rightarrow> r
         | None \<Rightarrow>
             (case (if is_str current_val \<and> is_num origin_val
                    then float_equal_try fo current_val origin_val else None) of
                Some r \<Rightarrow> r
              | None \<Rightarrow> float_int_equal fo origin_val current_val)))"

text \<open>
  \<open>_type_conversion_judgment\<close>. \<open>convert_compare\<close> is the body of the \<open>try\<close>: the chain of
  \<open>if\<close>/\<open>elif\<close> on the two types, which differ; where no branch applies the loop goes to the
  next group, as it does after a caught exception.
\<close>

definition convert_compare :: "'f float_ops \<Rightarrow> 'f pyval \<Rightarrow> 'f pyval \<Rightarrow> bool attempt" where
  "convert_compare fo old_value new_value =
     (case old_value of
        PStr s \<Rightarrow> Returned (s = py_str fo new_value)
      | PInt n \<Rightarrow>
          (case py_int fo new_value of
             Returned m \<Rightarrow> Returned (n = m) | Caught \<Rightarrow> Caught | Raised e \<Rightarrow> Raised e)
      | PFloat x \<Rightarrow>
          (case py_float fo new_value of
             Returned y \<Rightarrow> Returned (float_eq fo x y) | Caught \<Rightarrow> Caught | Raised e \<Rightarrow> Raised e)
      | _ \<Rightarrow>
          (case new_value of
             PStr t \<Rightarrow> Returned (py_str fo old_value = t)
           | PInt m \<Rightarrow>
               (case py_int fo old_value of
                  Returned n \<Rightarrow> Returned (n = m) | Caught \<Rightarrow> Caught | Raised e \<Rightarrow> Raised e)
           | PFloat y \<Rightarrow>
               (case py_float fo old_value of
                  Returned x \<Rightarrow> Returned (float_eq fo x y)
                | Caught \<Rightarrow> Caught
                | Raised e \<Rightarrow> Raised e)
           | _ \<Rightarrow> Caught))"

fun conversion_loop ::
  "'f float_ops \<Rightarrow> 'f pyval \<Rightarrow> 'f pyval \<Rightarrow> type_group list \<Rightarrow> error + bool" where
  "conversion_loop fo old_value new_value [] = Inr False"
| "conversion_loop fo old_value new_value (g # gs) =
     (if in_group (type_of old_value) g \<and> in_group (type_of new_value) g
      then (case convert_compare fo old_value new_value of
              Returned b \<Rightarrow> Inr b
            | Caught \<Rightarrow> conversion_loop fo old_value new_value gs
            | Raised e \<Rightarrow> Inl e)
      else conversion_loop fo old_value new_value gs)"

definition type_conversion_judgment ::
  "'f float_ops \<Rightarrow> 'f pyval \<Rightarrow> 'f pyval \<Rightarrow> config \<Rightarrow> error + bool" where
  "type_conversion_judgment fo old_value new_value cfg =
     (let type_groups = ignore_type_in_groups cfg in
      if type_groups = [] then Inr False
      else if type_of old_value = type_of new_value then Inr False
      else conversion_loop fo old_value new_value type_groups)"

section \<open>Leaves\<close>

text \<open>\<open>_special_value_check\<close>: the records it appends.\<close>

definition special_value_check :: "'f pyval \<Rightarrow> 'f pyval \<Rightarrow> string \<Rightarrow> diff list" where
  "special_value_check origin_val current_val path =
     (if is_str origin_val \<and> is_str current_val
      then (if strip (str_val origin_val) \<noteq> [] \<and> strip (str_val current_val) = []
            then [ValueChanged path] else [])
      else if is_int origin_val \<and> is_int current_val
      then (if int_val origin_val \<noteq> int_val current_val \<and> int_val current_val \<le> 0
            then [ValueChanged path] else [])
      else [])"

text \<open>
  \<open>_format_value\<close> and \<open>_format_structure\<close> render the values of a \<open>ValueChanged\<close> record. The
  rendering raises where a string passes \<open>isdigit()\<close> and \<open>int()\<close> refuses it.
\<close>

definition format_value_raises :: "'f pyval \<Rightarrow> bool" where
  "format_value_raises v =
     (case v of PStr s \<Rightarrow> s \<noteq> [] \<and> isdigit s \<and> int_of_str s = None | _ \<Rightarrow> False)"

fun format_structure_raises :: "'f pyval \<Rightarrow> bool" where
  "format_structure_raises (PList xs) = list_ex format_structure_raises xs"
| "format_structure_raises (PDict kvs) = list_ex (\<lambda>kv. format_structure_raises (snd kv)) kvs"
| "format_structure_raises v = format_value_raises v"

text \<open>
  The scalar branch of \<open>_compare_dicts\<close> (the \<open>else\<close> of the container test) for one key.
\<close>

definition compare_dict_leaf ::
  "'f float_ops \<Rightarrow> 'f pyval \<Rightarrow> 'f pyval \<Rightarrow> string \<Rightarrow> options \<Rightarrow> error + diff list" where
  "compare_dict_leaf fo origin_val current_val current_path opts =
     (if check_value opts then
        (case is_equivalent_value fo origin_val current_val (deep_diff_contrast_config opts) of
           Inl e \<Rightarrow> Inl e
         | Inr equivalent \<Rightarrow>
             if equivalent then Inr []
             else if check_type opts
                  \<and> \<not> is_same_type origin_val current_val (deep_diff_contrast_config opts)
             then Inr [TypeConflict current_path]
             else if \<not> py_eq fo origin_val current_val
             then (if format_value_raises origin_val \<or> format_value_raises current_val
                   then Inl ValueError else Inr [ValueChanged current_path])
             else Inr [])
      else Inr (special_value_check origin_val current_val current_path))"

text \<open>
  The scalar branch of \<open>_compare_lists_native\<close>; the source has the same lines twice, for a
  matched pair and for a pair of equal index.
\<close>

definition compare_list_leaf ::
  "'f float_ops \<Rightarrow> 'f pyval \<Rightarrow> 'f pyval \<Rightarrow> string \<Rightarrow> options \<Rightarrow> error + diff list" where
  "compare_list_leaf fo origin_item current_item elem_path opts =
     (let cfg = deep_diff_contrast_config opts;
          value_changed =
            (if format_structure_raises origin_item \<or> format_structure_raises current_item
             then Inl ValueError else Inr [ValueChanged elem_path]) in
      case is_equivalent_value fo origin_item current_item cfg of
        Inl e \<Rightarrow> Inl e
      | Inr equivalent \<Rightarrow>
          if equivalent then Inr []
          else if check_type opts \<and> \<not> is_same_type origin_item current_item cfg
          then Inr [TypeConflict elem_path]
          else if \<not> py_eq fo origin_item current_item
          then (if ignore_type_in_groups cfg \<noteq> []
                then (case type_conversion_judgment fo origin_item current_item cfg of
                        Inl e \<Rightarrow> Inl e
                      | Inr skip \<Rightarrow> if skip then Inr [] else value_changed)
                else value_changed)
          else Inr [])"

section \<open>List matcher\<close>

text \<open>
  A loop that returns \<open>False\<close> at the first pair that does not match, and \<open>True\<close> after the
  last one; an exception ends it.
\<close>

fun all_match :: "(error + bool) list \<Rightarrow> error + bool" where
  "all_match [] = Inr True"
| "all_match (r # rs) =
     (case r of Inl e \<Rightarrow> Inl e | Inr b \<Rightarrow> if b then all_match rs else Inr False)"

text \<open>\<open>_items_match\<close>.\<close>

function items_match ::
  "'f float_ops \<Rightarrow> 'f pyval \<Rightarrow> 'f pyval \<Rightarrow> bool \<Rightarrow> config \<Rightarrow> error + bool" where
  "items_match fo origin_item current_item chk_type cfg =
     (if chk_type \<and> \<not> is_same_type origin_item current_item cfg then Inr False
      else if \<not> is_container origin_item \<and> \<not> is_container current_item
      then (if ignore_type_in_groups cfg \<noteq> []
            then (case type_conversion_judgment fo origin_item current_item cfg of
                    Inl e \<Rightarrow> Inl e
                  | Inr b \<Rightarrow> if b then Inr True else Inr (py_eq fo origin_item current_item))
            else Inr (py_eq fo origin_item current_item))
      else
        (case origin_item of
           PDict origin_dict \<Rightarrow>
             (case current_item of
                PDict current_dict \<Rightarrow>
                  if length origin_dict \<noteq> length current_dict then Inr False
                  else all_match (map (\<lambda>(key, v).
                         case map_of current_dict key of
                           None \<Rightarrow> Inr False
                         | Some c \<Rightarrow> items_match fo v c chk_type cfg) origin_dict)
              | _ \<Rightarrow> Inr False)
         | PList origin_list \<Rightarrow>
             (case current_item of
                PList current_list \<Rightarrow>
                  if length origin_list \<noteq> length current_list then Inr False
                  else all_match (map (\<lambda>(v, c). items_match fo v c chk_type cfg)
                         (zip origin_list current_list))
              | _ \<Rightarrow> Inr False)
         | _ \<Rightarrow> Inr False))"
  by pat_completeness auto
termination
proof -
  have in_list: "size x < Suc (size_list size xs)" if "x \<in> set xs" for x :: "'f pyval" and xs
    using that by (induction xs) auto
  have in_dict: "size v < Suc (size_list (size_prod (\<lambda>x. 0) size) kvs)"
    if "(k, v) \<in> set kvs" for k :: string and v :: "'f pyval" and kvs
    using that by (induction kvs) auto
  show ?thesis
    by (relation "measure (\<lambda>(fo, origin_item, current_item, chk_type, cfg). size origin_item)")
      (auto dest: in_dict in_list set_zip_leftD)
qed

declare items_match.simps [simp del]

text \<open>
  The first pass of \<open>_compare_lists_native\<close>. \<open>find_match\<close> is the inner loop over
  \<open>enumerate(current_list_copy)\<close> for one origin element; \<open>match_loop\<close> is the outer loop, with
  \<open>origin_matched\<close> (a dict filled in the order of the origin indices: a list of pairs) and
  \<open>current_matched\<close> (a set: a list).
\<close>

fun find_match ::
  "'f float_ops \<Rightarrow> 'f pyval \<Rightarrow> (nat \<times> 'f pyval) list \<Rightarrow> nat list \<Rightarrow> bool \<Rightarrow> config
   \<Rightarrow> error + nat option" where
  "find_match fo origin_item [] current_matched chk_type cfg = Inr None"
| "find_match fo origin_item ((j, current_item) # rest) current_matched chk_type cfg =
     (if j \<in> set current_matched
      then find_match fo origin_item rest current_matched chk_type cfg
      else (case items_match fo origin_item current_item chk_type cfg of
              Inl e \<Rightarrow> Inl e
            | Inr b \<Rightarrow>
                if b then Inr (Some j)
                else find_match fo origin_item rest current_matched chk_type cfg))"

fun match_loop ::
  "'f float_ops \<Rightarrow> (nat \<times> 'f pyval) list \<Rightarrow> 'f pyval list \<Rightarrow> (nat \<times> nat) list \<Rightarrow> nat list
   \<Rightarrow> bool \<Rightarrow> config \<Rightarrow> error + (nat \<times> nat) list \<times> nat list" where
  "match_loop fo [] current_list origin_matched current_matched chk_type cfg =
     Inr (origin_matched, current_matched)"
| "match_loop fo ((i, origin_item) # rest) current_list origin_matched current_matched
     chk_type cfg =
     (case find_match fo origin_item (enumerate 0 current_list) current_matched chk_type cfg of
        Inl e \<Rightarrow> Inl e
      | Inr None \<Rightarrow>
          match_loop fo rest current_list origin_matched current_matched chk_type cfg
      | Inr (Some j) \<Rightarrow>
          match_loop fo rest current_list (origin_matched @ [(i, j)]) (j # current_matched)
            chk_type cfg)"

definition match_items ::
  "'f float_ops \<Rightarrow> 'f pyval list \<Rightarrow> 'f pyval list \<Rightarrow> bool \<Rightarrow> config
   \<Rightarrow> error + (nat \<times> nat) list \<times> nat list" where
  "match_items fo origin_list current_list chk_type cfg =
     match_loop fo (enumerate 0 origin_list) current_list [] [] chk_type cfg"

section \<open>Structural differ\<close>

text \<open>
  \<open>_compare_dicts\<close>, \<open>_compare_lists\<close> and \<open>_compare_lists_native\<close> are inner functions of
  \<open>compare_structures\<close> and call it on the members of the origin value. Each member of the
  origin comes to them with \<open>recurse\<close>, the call of \<open>compare_structures\<close> on that member, which
  takes the current value, the path and the options of the call.
\<close>

type_synonym 'f recursion = "'f pyval \<Rightarrow> string \<Rightarrow> options \<Rightarrow> error + diff list"

text \<open>The body of the loop \<open>for key in origin_dict\<close> of \<open>_compare_dicts\<close>.\<close>

definition compare_dict_item ::
  "'f float_ops \<Rightarrow> (string \<times> 'f pyval) list \<Rightarrow> string \<Rightarrow> options
   \<Rightarrow> string \<times> 'f pyval \<times> 'f recursion \<Rightarrow> error + diff list" where
  "compare_dict_item fo current_dict path opts item =
     (case item of (key, origin_val, recurse) \<Rightarrow>
        let current_path = key_path path key in
        if should_exclude current_path (exclude_fields opts) then Inr []
        else (case map_of current_dict key of
                None \<Rightarrow> Inr (if check_missing opts then [MissingField current_path] else [])
              | Some current_val \<Rightarrow>
                  if is_container origin_val then recurse current_val current_path opts
                  else compare_dict_leaf fo origin_val current_val current_path opts))"

text \<open>The loop \<open>for key in current_dict\<close> under \<open>if check_redundant\<close>.\<close>

definition redundant_fields ::
  "string list \<Rightarrow> (string \<times> 'f pyval) list \<Rightarrow> string \<Rightarrow> options \<Rightarrow> diff list" where
  "redundant_fields origin_keys current_dict path opts =
     concat (map (\<lambda>key.
       if key \<notin> set origin_keys \<and> \<not> should_exclude (key_path path key) (exclude_fields opts)
       then [RedundantField (key_path path key)] else []) (map fst current_dict))"

definition compare_dicts ::
  "'f float_ops \<Rightarrow> (string \<times> 'f pyval \<times> 'f recursion) list \<Rightarrow> (string \<times> 'f pyval) list
   \<Rightarrow> string \<Rightarrow> options \<Rightarrow> error + diff list" where
  "compare_dicts fo origin_items current_dict path opts =
     (case concat_results (map (compare_dict_item fo current_dict path opts) origin_items) of
        Inl e \<Rightarrow> Inl e
      | Inr differences \<Rightarrow>
          Inr (differences @
            (if check_redundant opts
             then redundant_fields (map fst origin_items) current_dict path opts else [])))"

text \<open>
  \<open>_compare_lists_native\<close> calls \<open>compare_structures\<close> with \<open>check_value\<close> and \<open>check_missing\<close>
  true and \<open>check_redundant\<close> false.
\<close>

definition native_options :: "options \<Rightarrow> options" where
  "native_options opts =
     opts \<lparr> check_value := True, check_missing := True, check_redundant := False \<rparr>"

text \<open>
  The body of the loop \<open>for orig_idx, curr_idx in origin_matched.items()\<close>. The items of
  \<open>origin_matched\<close> come in the order of the origin indices, so the loop is the loop over the
  origin elements that skips the unmatched ones.
\<close>

definition native_matched_item ::
  "'f float_ops \<Rightarrow> 'f pyval list \<Rightarrow> string \<Rightarrow> options \<Rightarrow> (nat \<times> nat) list
   \<Rightarrow> nat \<times> 'f pyval \<times> 'f recursion \<Rightarrow> error + diff list" where
  "native_matched_item fo current_list path opts origin_matched item =
     (case item of (orig_idx, origin_item, recurse) \<Rightarrow>
        (case map_of origin_matched orig_idx of
           None \<Rightarrow> Inr []
         | Some curr_idx \<Rightarrow>
             let elem_path = index_path path orig_idx;
                 current_item = current_list ! curr_idx in
             if should_exclude elem_path (exclude_fields opts) then Inr []
             else if is_container origin_item \<and> is_container current_item
             then recurse current_item elem_path (native_options opts)
             else if is_dict origin_item \<or> is_dict current_item
             then Inr (if check_type opts then [TypeConflict elem_path] else [])
             else if is_list origin_item \<or> is_list current_item
             then Inr (if check_type opts then [TypeConflict elem_path] else [])
             else compare_list_leaf fo origin_item current_item elem_path opts))"

text \<open>
  The body of the loop \<open>for i in range(max_len)\<close> of the order-sensitive branch, for an index
  inside the origin list.
\<close>

definition native_indexed_item ::
  "'f float_ops \<Rightarrow> 'f pyval list \<Rightarrow> string \<Rightarrow> options
   \<Rightarrow> nat \<times> 'f pyval \<times> 'f recursion \<Rightarrow> error + diff list" where
  "native_indexed_item fo current_list path opts item =
     (case item of (i, origin_item, recurse) \<Rightarrow>
        let elem_path = index_path path i in
        if should_exclude elem_path (exclude_fields opts) then Inr []
        else if i \<ge> length current_list then Inr [ListItemRemoved elem_path]
        else
          let current_item = current_list ! i in
          if is_container origin_item \<and> is_container current_item
          then recurse current_item elem_path (native_options opts)
          else compare_list_leaf fo origin_item current_item elem_path opts)"

text \<open>The records of the unmatched elements, and of the indices past the origin list.\<close>

definition removed_items :: "(nat \<times> nat) list \<Rightarrow> nat \<Rightarrow> string \<Rightarrow> options \<Rightarrow> diff list" where
  "removed_items origin_matched n path opts =
     concat (map (\<lambda>i.
       if map_of origin_matched i = None
          \<and> \<not> should_exclude (index_path path i) (exclude_fields opts)
       then [ListItemRemoved (index_path path i)] else []) [0..<n])"

definition added_items :: "nat list \<Rightarrow> nat \<Rightarrow> nat \<Rightarrow> string \<Rightarrow> options \<Rightarrow> diff list" where
  "added_items current_matched m n path opts =
     concat (map (\<lambda>j.
       if j \<notin> set current_matched
          \<and> \<not> should_exclude (index_path path j) (exclude_fields opts)
       then [ListItemAdded (index_path path j)] else []) [m..<n])"

definition get_ignore_order :: "config \<Rightarrow> bool" where
  "get_ignore_order cfg = (case ignore_order cfg of None \<Rightarrow> True | Some b \<Rightarrow> b)"

definition compare_lists_native ::
  "'f float_ops \<Rightarrow> (nat \<times> 'f pyval \<times> 'f recursion) list \<Rightarrow> 'f pyval list
   \<Rightarrow> string \<Rightarrow> options \<Rightarrow> error + diff list" where
  "compare_lists_native fo origin_items current_list path opts =
     (if get_ignore_order (deep_diff_contrast_config opts)
      then
        (case match_items fo (map (\<lambda>item. fst (snd item)) origin_items) current_list
                (check_type opts) (deep_diff_contrast_config opts) of
           Inl e \<Rightarrow> Inl e
         | Inr (origin_matched, current_matched) \<Rightarrow>
             (case concat_results
                     (map (native_matched_item fo current_list path opts origin_matched)
                        origin_items) of
                Inl e \<Rightarrow> Inl e
              | Inr differences \<Rightarrow>
                  Inr (removed_items origin_matched (length origin_items) path opts
                       @ added_items current_matched 0 (length current_list) path opts
                       @ differences)))
      else
        (case concat_results
                (map (native_indexed_item fo current_list path opts) origin_items) of
           Inl e \<Rightarrow> Inl e
         | Inr differences \<Rightarrow>
             Inr (differences
                  @ added_items [] (length origin_items) (length current_list) path opts)))"

text \<open>
  The body of the loop of \<open>_compare_lists\<close> when \<open>check_value\<close> is false, over
  \<open>range(min(len(origin_list), len(current_list)))\<close>. It asks no exclusion.
\<close>

definition compare_list_item ::
  "string \<Rightarrow> options \<Rightarrow> (nat \<times> 'f pyval \<times> 'f recursion) \<times> 'f pyval \<Rightarrow> error + diff list" where
  "compare_list_item path opts pair =
     (case pair of ((i, origin_item, recurse), current_item) \<Rightarrow>
        let elem_path = index_path path i in
        if is_container origin_item then recurse current_item elem_path opts
        else Inr (special_value_check origin_item current_item elem_path
                  @ (if check_type opts
                        \<and> \<not> is_same_type origin_item current_item (deep_diff_contrast_config opts)
                     then [TypeConflict elem_path] else [])))"

definition compare_lists ::
  "'f float_ops \<Rightarrow> (nat \<times> 'f pyval \<times> 'f recursion) list \<Rightarrow> 'f pyval list
   \<Rightarrow> string \<Rightarrow> options \<Rightarrow> error + diff list" where
  "compare_lists fo origin_items current_list path opts =
     (if check_value opts then compare_lists_native fo origin_items current_list path opts
      else concat_results (map (compare_list_item path opts) (zip origin_items current_list)))"

text \<open>
  \<open>compare_structures\<close>. \<open>deepcopy\<close> changes nothing in a model without mutation. The lists of
  records the inner functions return are appended to \<open>differences\<close>, which is empty when they
  are called.
\<close>

function compare_structures ::
  "'f float_ops \<Rightarrow> 'f pyval \<Rightarrow> 'f pyval \<Rightarrow> string \<Rightarrow> options \<Rightarrow> error + diff list" where
  "compare_structures fo origin_data current_data path opts0 =
     (let opts = normalize_options opts0 in
      if path = [] \<and> (\<not> is_container origin_data \<or> \<not> is_container current_data)
      then Inl InvalidInput
      else if is_null origin_data \<and> is_null current_data then Inr []
      else if is_null origin_data
      then Inr (if check_missing opts then [MissingField path] else [])
      else if is_null current_data
      then Inr (if check_redundant opts then [RedundantField path] else [])
      else
        (case (origin_data, current_data) of
           (PDict origin_dict, PDict current_dict) \<Rightarrow>
             compare_dicts fo
               (map (\<lambda>(key, v). (key, v, (\<lambda>c p os. compare_structures fo v c p os))) origin_dict)
               current_dict path opts
         | (PList origin_list, PList current_list) \<Rightarrow>
             compare_lists fo
               (map (\<lambda>(i, v). (i, v, (\<lambda>c p os. compare_structures fo v c p os)))
                  (enumerate 0 origin_list))
               current_list path opts
         | _ \<Rightarrow>
             Inr (if check_type opts
                     \<and> \<not> is_same_type origin_data current_data (deep_diff_contrast_config opts)
                  then [TypeConflict path] else [])))"
  by pat_completeness auto
termination
proof -
  have in_list: "size x < Suc (size_list size xs)" if "x \<in> set xs" for x :: "'f pyval" and xs
    using that by (induction xs) auto
  have in_dict: "size v < Suc (size_list (size_prod (\<lambda>x. 0) size) kvs)"
    if "(k, v) \<in> set kvs" for k :: string and v :: "'f pyval" and kvs
    using that by (induction kvs) auto
  show ?thesis
    by (relation "measure (\<lambda>(fo, origin_data, current_data, path, opts0). size origin_data)")
      (auto dest: in_dict simp: in_set_enumerate_eq intro: in_list [OF nth_mem])
qed

declare compare_structures.simps [simp del]

section \<open>The words of the claims\<close>

text \<open>A well-formed value: a map has every key once.\<close>

fun wf_value :: "'f pyval \<Rightarrow> bool" where
  "wf_value (PList xs) = list_all wf_value xs"
| "wf_value (PDict kvs) = (distinct (map fst kvs) \<and> list_all (\<lambda>kv. wf_value (snd kv)) kvs)"
| "wf_value v = True"

text \<open>A value that holds no NaN: every float in it equals itself.\<close>

fun nan_free :: "'f float_ops \<Rightarrow> 'f pyval \<Rightarrow> bool" where
  "nan_free fo (PFloat x) = float_eq fo x x"
| "nan_free fo (PList xs) = list_all (nan_free fo) xs"
| "nan_free fo (PDict kvs) = list_all (\<lambda>kv. nan_free fo (snd kv)) kvs"
| "nan_free fo v = True"

text \<open>
  The pairing of the order-insensitive mode, in the words of the specification: each origin
  element, in order, is bound to the first current element, in order, that is not bound yet
  and that it matches. \<open>M\<close> is the match of two elements, \<open>taken\<close> the current indices bound
  so far.
\<close>

fun first_fit ::
  "('a \<Rightarrow> 'b \<Rightarrow> bool) \<Rightarrow> (nat \<times> 'a) list \<Rightarrow> 'b list \<Rightarrow> nat list \<Rightarrow> (nat \<times> nat) list" where
  "first_fit M [] ys taken = []"
| "first_fit M ((i, x) # rest) ys taken =
     (case find (\<lambda>j. j \<notin> set taken \<and> M x (ys ! j)) [0..<length ys] of
        None \<Rightarrow> first_fit M rest ys taken
      | Some j \<Rightarrow> (i, j) # first_fit M rest ys (j # taken))"




text \<open>The paths of the \<open>ValueChanged\<close> records of a result, in the order of the records.\<close>

fun value_changed_paths :: "diff list \<Rightarrow> string list" where
  "value_changed_paths [] = []"
| "value_changed_paths (ValueChanged p # ds) = p # value_changed_paths ds"
| "value_changed_paths (d # ds) = value_changed_paths ds"

text \<open>Every record of a result that is no exception lies under a path.\<close>

definition all_under :: "string \<Rightarrow> error + diff list \<Rightarrow> bool" where
  "all_under path r = (case r of Inl e \<Rightarrow> True | Inr ds \<Rightarrow> \<forall>d \<in> set ds. prefix path (diff_path d))"

text \<open>
  The paths of the \<open>MissingField\<close> records and of the \<open>RedundantField\<close> records of a result;
  a value that holds no null.
\<close>

definition missing_paths :: "diff list \<Rightarrow> string set" where
  "missing_paths ds = {p. MissingField p \<in> set ds}"

definition redundant_paths :: "diff list \<Rightarrow> string set" where
  "redundant_paths ds = {p. RedundantField p \<in> set ds}"


text \<open>A result with no \<open>RedundantField\<close> record, with no \<open>MissingField\<close> record.\<close>

definition no_redundant :: "error + diff list \<Rightarrow> bool" where
  "no_redundant r = (case r of Inl e \<Rightarrow> True | Inr ds \<Rightarrow> redundant_paths ds = {})"

definition no_missing :: "error + diff list \<Rightarrow> bool" where
  "no_missing r = (case r of Inl e \<Rightarrow> True | Inr ds \<Rightarrow> missing_paths ds = {})"

text \<open>
  The options of the two calls of the symmetry claim, as \<open>compare_structures\<close> passes them
  on: the defaults, and the defaults with \<open>check_redundant\<close> true.
\<close>

definition missing_options :: options where
  "missing_options = normalize_options default_options"

definition redundant_options :: options where
  "redundant_options = normalize_options (default_options \<lparr> check_redundant := True \<rparr>)"

section \<open>The equation of \<open>compare_structures\<close>, by the kind of the origin value\<close>

lemma compare_structures_PDict:
  "compare_structures fo (PDict origin_dict) current_data path opts0 =
     (let opts = normalize_options opts0 in
      if path = [] \<and> \<not> is_container current_data then Inl InvalidInput
      else if is_null current_data
      then Inr (if check_redundant opts then [RedundantField path] else [])
      else
        (case current_data of
           PDict current_dict \<Rightarrow>
             compare_dicts fo
               (map (\<lambda>(key, v). (key, v, (\<lambda>c p os. compare_structures fo v c p os))) origin_dict)
               current_dict path opts
         | _ \<Rightarrow>
             Inr (if check_type opts
                     \<and> \<not> is_same_type (PDict origin_dict) current_data
                          (deep_diff_contrast_config opts)
                  then [TypeConflict path] else [])))"
  by (subst compare_structures.simps) (simp add: Let_def split: pyval.splits)

lemma compare_structures_PList:
  "compare_structures fo (PList origin_list) current_data path opts0 =
     (let opts = normalize_options opts0 in
      if path = [] \<and> \<not> is_container current_data then Inl InvalidInput
      else if is_null current_data
      then Inr (if check_redundant opts then [RedundantField path] else [])
      else
        (case current_data of
           PList current_list \<Rightarrow>
             compare_lists fo
               (map (\<lambda>(i, v). (i, v, (\<lambda>c p os. compare_structures fo v c p os)))
                  (enumerate 0 origin_list))
               current_list path opts
         | _ \<Rightarrow>
             Inr (if check_type opts
                     \<and> \<not> is_same_type (PList origin_list) current_data
                          (deep_diff_contrast_config opts)
                  then [TypeConflict path] else [])))"
  by (subst compare_structures.simps) (simp add: Let_def split: pyval.splits)

lemma compare_structures_scalar:
  "\<not> is_container origin_data \<Longrightarrow>
   compare_structures fo origin_data current_data path opts0 =
     (let opts = normalize_options opts0 in
      if path = [] then Inl InvalidInput
      else if is_null origin_data \<and> is_null current_data then Inr []
      else if is_null origin_data
      then Inr (if check_missing opts then [MissingField path] else [])
      else if is_null current_data
      then Inr (if check_redundant opts then [RedundantField path] else [])
      else Inr (if check_type opts
                   \<and> \<not> is_same_type origin_data current_data (deep_diff_contrast_config opts)
                then [TypeConflict path] else []))"
  by (subst compare_structures.simps) (auto simp add: Let_def split: pyval.splits)

text \<open>The equations that run the model on a concrete input.\<close>

lemma str_of_nat_digit: "n < 10 \<Longrightarrow> str_of_nat n = [digit_char n]"
  by (subst str_of_nat.simps) simp

lemma str_of_nat_more:
  "\<not> n < 10 \<Longrightarrow> str_of_nat n = str_of_nat (n div 10) @ [digit_char n]"
  by (subst str_of_nat.simps) simp

lemmas eval_defs =
  compare_structures_PDict compare_structures_PList compare_structures_scalar
  compare_dicts_def compare_dict_item_def compare_dict_leaf_def compare_list_leaf_def
  compare_lists_def compare_lists_native_def compare_list_item_def native_matched_item_def
  native_indexed_item_def removed_items_def added_items_def redundant_fields_def
  match_items_def get_ignore_order_def native_options_def normalize_options_def default_options_def
  empty_config_def default_config_def key_path_def index_path_def should_exclude_def
  format_path.simps(2) quoted_index_def is_decimal_def digit_of_def isdigit_def is_space_def
  strip_def is_int_space_def int_strip_def int_of_str_def unsigned_of_str_def is_same_type_def
  is_equivalent_value_def
  types_in_same_group_def in_group_def type_conversion_judgment_def special_value_check_def
  format_value_raises_def items_match.simps Let_def enumerate_eq_zip str_of_nat_digit
  str_of_nat_more digit_char_def suffix_to_prefix

section \<open>Type groups (C4)\<close>

text \<open>
  C4. With the type group \<open>(str, int)\<close> configured, comparing \<open>{v: "100"}\<close> with \<open>{v: 100}\<close>
  returns no record; with the default configuration (no type group) the same call returns
  exactly one \<open>TypeConflict\<close> record, at path \<open>v\<close>. The group is a tuple, as in the
  repository's scenarios 11 and 16.
\<close>

theorem type_group_equivalence:
  "compare_structures fo (PDict [(''v'', PStr ''100'')]) (PDict [(''v'', PInt 100)]) []
     (default_options \<lparr> deep_diff_contrast_config :=
        \<lparr> ignore_order = None, ignore_type_in_groups = [GroupSeq [StrT, IntT]] \<rparr> \<rparr>) = Inr []
   \<and> compare_structures fo (PDict [(''v'', PStr ''100'')]) (PDict [(''v'', PInt 100)]) []
       default_options = Inr [TypeConflict ''v'']"
  by (simp add: eval_defs)

section \<open>The root check (C7)\<close>

text \<open>
  What holds of the root check: a call with the empty path (the default of the outermost
  call) on a root that is no map and no sequence raises, whatever the options; and a call
  with a path that is not empty never raises \<open>InvalidInput\<close> itself.
\<close>

lemma root_check_empty_path:
  "\<not> is_container origin_data \<or> \<not> is_container current_data \<Longrightarrow>
   compare_structures fo origin_data current_data [] opts = Inl InvalidInput"
  by (subst compare_structures.simps) (simp add: Let_def)

text \<open>
  C7. The claim says the check is made at the outermost call and only there. The source
  tests \<open>if not path\<close> for "the first entry" (its comment), and a member under the key \<open>""\<close>
  of the root map is compared at the path \<open>""\<close> again: with the maps \<open>{"": {}}\<close> and
  \<open>{"": 5}\<close> as roots the nested call raises, and the comparison of two maps fails with
  \<open>InvalidInput\<close>.
\<close>

theorem root_check_at_nested_empty_key:
  "compare_structures fo (PDict [([], PDict [])]) (PDict [([], PInt 5)]) [] default_options
     = Inl InvalidInput"
  by (simp add: eval_defs)

section \<open>Exclusion (C2)\<close>

text \<open>
  C2. The claim says that excluding \<open>rows[*].link\<close> removes the differences at every
  \<open>rows[i].link\<close> and keeps those at \<open>rows[i].title\<close>. In the source a pattern excludes every
  path that is a prefix of it, and its wildcard part \<open>rows[*]\<close> is compared with the whole
  path part \<open>rows[0]\<close>: the pattern excludes \<open>rows\<close>, and does not exclude \<open>rows[0].link\<close>. With
  the order-sensitive configuration the two rows differ at \<open>title\<close> and \<open>link\<close>; with the
  pattern excluded the comparison reports nothing, the difference at \<open>rows[0].title\<close> too
  is gone.
\<close>

theorem wildcard_exclusion_drops_rows:
  "compare_structures fo
     (PDict [(''rows'', PList [PDict [(''title'', PStr ''a''), (''link'', PStr ''x'')]])])
     (PDict [(''rows'', PList [PDict [(''title'', PStr ''b''), (''link'', PStr ''y'')]])]) []
     (default_options \<lparr> exclude_fields := [''rows[*].link''],
        deep_diff_contrast_config := \<lparr> ignore_order = Some False, ignore_type_in_groups = [] \<rparr> \<rparr>)
     = Inr []
   \<and> compare_structures fo
     (PDict [(''rows'', PList [PDict [(''title'', PStr ''a''), (''link'', PStr ''x'')]])])
     (PDict [(''rows'', PList [PDict [(''title'', PStr ''b''), (''link'', PStr ''y'')]])]) []
     (default_options \<lparr>
        deep_diff_contrast_config := \<lparr> ignore_order = Some False, ignore_type_in_groups = [] \<rparr> \<rparr>)
     = Inr [ValueChanged ''rows[0].title'', ValueChanged ''rows[0].link'']
   \<and> should_exclude ''rows'' [''rows[*].link'']
   \<and> \<not> should_exclude ''rows[0].link'' [''rows[*].link'']"
  by (simp add: eval_defs)

section \<open>A null origin (C3)\<close>




section \<open>The pairing of the order-insensitive mode (C10, C6)\<close>

text \<open>The two loops of the first pass compute the first-fit pairing.\<close>

lemma find_match_find:
  "find_match fo x (enumerate k ys) cm ct cfg = Inr r \<Longrightarrow>
   r = find (\<lambda>j. j \<notin> set cm \<and> items_match fo x (ys ! (j - k)) ct cfg = Inr True) [k..<k + length ys]"
proof (induction ys arbitrary: k)
  case Nil
  then show ?case by simp
next
  case (Cons y ys)
  let ?P = "\<lambda>j. j \<notin> set cm \<and> items_match fo x ((y # ys) ! (j - k)) ct cfg = Inr True"
  let ?Q = "\<lambda>j. j \<notin> set cm \<and> items_match fo x (ys ! (j - Suc k)) ct cfg = Inr True"
  have upt: "[k..<k + length (y # ys)] = k # [Suc k..<Suc k + length ys]"
    by (simp add: upt_rec)
  have cong: "find ?P [Suc k..<Suc k + length ys] = find ?Q [Suc k..<Suc k + length ys]"
  proof (rule find_cong [OF refl])
    fix j assume "j \<in> set [Suc k..<Suc k + length ys]"
    then have "j - k = Suc (j - Suc k)" by auto
    then show "?P j = ?Q j" by simp
  qed
  have step: "find ?P [k..<k + length (y # ys)]
      = (if ?P k then Some k else find ?Q [Suc k..<Suc k + length ys])"
    by (simp only: upt find.simps cong)
  show ?case
  proof (cases "k \<in> set cm")
    case True
    with Cons.prems have "find_match fo x (enumerate (Suc k) ys) cm ct cfg = Inr r" by simp
    from Cons.IH [OF this] have "r = find ?Q [Suc k..<Suc k + length ys]" .
    with True show ?thesis by (simp only: step) simp
  next
    case False
    show ?thesis
    proof (cases "items_match fo x y ct cfg")
      case (Inl e)
      with False Cons.prems show ?thesis by simp
    next
      case (Inr b)
      show ?thesis
      proof (cases b)
        case True
        with Inr False Cons.prems have "r = Some k" by simp
        with True Inr False show ?thesis by (simp only: step) simp
      next
        case F: False
        with Inr False Cons.prems have "find_match fo x (enumerate (Suc k) ys) cm ct cfg = Inr r"
          by simp
        from Cons.IH [OF this] have "r = find ?Q [Suc k..<Suc k + length ys]" .
        with F Inr False show ?thesis by (simp only: step) simp
      qed
    qed
  qed
qed

lemma match_loop_first_fit:
  "match_loop fo items ys om cm ct cfg = Inr (om', cm') \<Longrightarrow>
   om' = om @ first_fit (\<lambda>x y. items_match fo x y ct cfg = Inr True) items ys cm
   \<and> set cm' = set cm \<union> snd ` set (first_fit (\<lambda>x y. items_match fo x y ct cfg = Inr True) items ys cm)"
proof (induction items arbitrary: om cm)
  case Nil
  then show ?case by simp
next
  case (Cons item items)
  obtain i x where item: "item = (i, x)" by (cases item)
  show ?case
  proof (cases "find_match fo x (enumerate 0 ys) cm ct cfg")
    case (Inl e)
    with Cons.prems item show ?thesis by simp
  next
    case (Inr r)
    from find_match_find [OF Inr]
    have r: "r = find (\<lambda>j. j \<notin> set cm \<and> items_match fo x (ys ! j) ct cfg = Inr True) [0..<length ys]"
      by simp
    show ?thesis
    proof (cases r)
      case None
      with Inr Cons.prems item
      have "match_loop fo items ys om cm ct cfg = Inr (om', cm')" by simp
      from Cons.IH [OF this] show ?thesis using None r item by simp
    next
      case (Some j)
      with Inr Cons.prems item
      have "match_loop fo items ys (om @ [(i, j)]) (j # cm) ct cfg = Inr (om', cm')" by simp
      from Cons.IH [OF this] show ?thesis using Some r item by auto
    qed
  qed
qed

lemma first_fit_snd:
  "set (map snd (first_fit M items ys taken)) \<inter> set taken = {}
   \<and> distinct (map snd (first_fit M items ys taken))
   \<and> (\<forall>j \<in> snd ` set (first_fit M items ys taken). j < length ys)"
proof (induction items arbitrary: taken)
  case Nil
  then show ?case by simp
next
  case (Cons item items)
  obtain i x where item: "item = (i, x)" by (cases item)
  show ?case
  proof (cases "find (\<lambda>j. j \<notin> set taken \<and> M x (ys ! j)) [0..<length ys]")
    case None
    then show ?thesis using Cons.IH [of taken] item by simp
  next
    case (Some j)
    then have "j \<notin> set taken" "j < length ys"
      by (auto simp: find_Some_iff)
    then show ?thesis using Cons.IH [of "j # taken"] Some item by auto
  qed
qed

lemma first_fit_fst:
  "fst ` set (first_fit M items ys taken) \<subseteq> fst ` set items
   \<and> (distinct (map fst items) \<longrightarrow> distinct (map fst (first_fit M items ys taken)))"
proof (induction items arbitrary: taken)
  case Nil
  then show ?case by simp
next
  case (Cons item items)
  obtain i x where item: "item = (i, x)" by (cases item)
  show ?case
  proof (cases "find (\<lambda>j. j \<notin> set taken \<and> M x (ys ! j)) [0..<length ys]")
    case None
    then show ?thesis using Cons.IH [of taken] item by auto
  next
    case (Some j)
    then show ?thesis using Cons.IH [of "j # taken"] item by auto
  qed
qed

text \<open>
  C10. The pairing of the order-insensitive mode is injective: no origin index is bound
  twice and no current index is bound twice; the indices are indices of the two lists, and
  \<open>current_matched\<close> holds the current indices that are bound.
\<close>

theorem matching_injective:
  "match_items fo origin_list current_list chk_type cfg = Inr (origin_matched, current_matched) \<Longrightarrow>
   distinct (map fst origin_matched) \<and> distinct (map snd origin_matched)
   \<and> (\<forall>(i, j) \<in> set origin_matched. i < length origin_list \<and> j < length current_list)
   \<and> set current_matched = snd ` set origin_matched"
proof -
  assume m: "match_items fo origin_list current_list chk_type cfg = Inr (origin_matched, current_matched)"
  let ?g = "first_fit (\<lambda>x y. items_match fo x y chk_type cfg = Inr True)
              (enumerate 0 origin_list) current_list []"
  from match_loop_first_fit [OF m [unfolded match_items_def]]
  have om: "origin_matched = ?g" and cm: "set current_matched = snd ` set ?g" by simp_all
  have g1: "fst ` set ?g \<subseteq> fst ` set (enumerate 0 origin_list)"
    and d1: "distinct (map fst ?g)"
    using first_fit_fst [of _ "enumerate 0 origin_list" current_list "[]"] by simp_all
  have "fst ` set (enumerate 0 origin_list) = {..<length origin_list}"
    by (metis atLeast_upt list.set_map map_fst_enumerate add_0)
  with g1 have r1: "\<forall>i \<in> fst ` set ?g. i < length origin_list" by blast
  from first_fit_snd [of _ "enumerate 0 origin_list" current_list "[]"]
  have d2: "distinct (map snd ?g)" and r2: "\<forall>j \<in> snd ` set ?g. j < length current_list"
    by blast+
  from d1 d2 r1 r2 om cm show ?thesis by force
qed

theorem matching_injective_witness:
  "match_items int_floats [PInt 1, PInt 2, PInt 3] [PInt 3, PInt 1, PInt 5] True default_config
     = Inr ([(0, 1), (2, 0)], [0, 1])
   \<and> distinct (map fst [(0 :: nat, 1 :: nat), (2, 0)]) \<and> distinct (map snd [(0 :: nat, 1 :: nat), (2, 0)])"
proof -
  have m: "match_items int_floats [PInt 1, PInt 2, PInt 3] [PInt 3, PInt 1, PInt 5] True
      default_config = Inr ([(0, 1), (2, 0)], [0, 1])"
    by (simp add: eval_defs)
  from matching_injective [OF m] m show ?thesis by simp
qed

text \<open>The origin elements with their recursion, as \<open>compare_structures\<close> passes them.\<close>

lemma list_items_nth:
  "item \<in> set (map (\<lambda>(i, v). (i, v, f v)) (enumerate 0 xs)) \<Longrightarrow>
   \<exists>i < length xs. item = (i, xs ! i, f (xs ! i))"
  by (auto simp: in_set_enumerate_eq)

lemma list_items_values: "map (\<lambda>item. fst (snd item)) (map (\<lambda>(i, v). (i, v, f v)) (enumerate 0 xs)) = xs"
  by (simp add: enumerate_eq_zip comp_def case_prod_unfold)

lemma list_items_zip:
  "pair \<in> set (zip (map (\<lambda>(i, v). (i, v, f v)) (enumerate 0 xs)) xs) \<Longrightarrow>
   \<exists>i < length xs. pair = ((i, xs ! i, f (xs ! i)), xs ! i)"
  by (auto simp: set_zip nth_enumerate_eq)

lemma list_items_values_comp:
  "map ((\<lambda>item. fst (snd item)) \<circ> (\<lambda>(i, v). (i, v, f v))) (enumerate 0 xs) = xs"
  using list_items_values [of f xs] by simp

text \<open>
  The claim C6 as stated fails where the path of an unmatched element is excluded: with
  \<open>items[0]\<close> excluded, the origin element \<open>items[0]\<close> has no match in the empty current list
  and gives no \<open>ListItemRemoved\<close> record. The loops over the unmatched elements ask
  \<open>_should_exclude\<close> first.
\<close>

theorem excluded_unmatched_counterexample:
  "compare_structures int_floats (PDict [(''items'', PList [PInt 1])]) (PDict [(''items'', PList [])])
     [] (default_options \<lparr> exclude_fields := [''items[0]''] \<rparr>) = Inr []"
  by (simp add: eval_defs)

text \<open>
  C6, amended. In the order-insensitive mode (\<open>check_value\<close> and \<open>ignore_order\<close> true), a
  comparison of two lists that returns has bound the elements by \<open>first_fit\<close> on
  \<open>items_match\<close>; every origin element left unmatched whose path is not excluded has a
  \<open>ListItemRemoved\<close> record at its own index, and every current element left unmatched whose
  path is not excluded has a \<open>ListItemAdded\<close> record at its own index.
\<close>

theorem order_insensitive_first_fit:
  assumes cv: "check_value opts"
    and io: "get_ignore_order (deep_diff_contrast_config (normalize_options opts))"
    and res: "compare_structures fo (PList origin_list) (PList current_list) path opts = Inr ds"
  shows "\<exists>origin_matched current_matched.
      match_items fo origin_list current_list (check_type opts)
        (deep_diff_contrast_config (normalize_options opts)) = Inr (origin_matched, current_matched)
    \<and> origin_matched = first_fit
        (\<lambda>x y. items_match fo x y (check_type opts) (deep_diff_contrast_config (normalize_options opts)) = Inr True)
        (enumerate 0 origin_list) current_list []
    \<and> (\<forall>i < length origin_list.
          i \<notin> fst ` set origin_matched
          \<and> \<not> should_exclude (index_path path i) (exclude_fields (normalize_options opts))
          \<longrightarrow> ListItemRemoved (index_path path i) \<in> set ds)
    \<and> (\<forall>j < length current_list.
          j \<notin> snd ` set origin_matched
          \<and> \<not> should_exclude (index_path path j) (exclude_fields (normalize_options opts))
          \<longrightarrow> ListItemAdded (index_path path j) \<in> set ds)"
proof -
  let ?opts = "normalize_options opts"
  let ?cfg = "deep_diff_contrast_config ?opts"
  let ?items = "map (\<lambda>(i, v). (i, v, (\<lambda>c p os. compare_structures fo v c p os)))
                  (enumerate 0 origin_list)"
  have flags: "check_value ?opts = check_value opts" "check_type ?opts = check_type opts"
    by (simp_all add: normalize_options_def)
  from res cv io have native:
    "(case match_items fo origin_list current_list (check_type opts) ?cfg of
        Inl e \<Rightarrow> Inl e
      | Inr (origin_matched, current_matched) \<Rightarrow>
          (case concat_results
                  (map (native_matched_item fo current_list path ?opts origin_matched) ?items) of
             Inl e \<Rightarrow> Inl e
           | Inr differences \<Rightarrow>
               Inr (removed_items origin_matched (length ?items) path ?opts
                    @ added_items current_matched 0 (length current_list) path ?opts
                    @ differences))) = Inr ds"
    by (simp add: compare_structures_PList compare_lists_def compare_lists_native_def flags
        list_items_values_comp Let_def)
  then obtain om cm differences
    where m: "match_items fo origin_list current_list (check_type opts) ?cfg = Inr (om, cm)"
      and ds: "ds = removed_items om (length origin_list) path ?opts
                    @ added_items cm 0 (length current_list) path ?opts @ differences"
    by (auto split: sum.splits prod.splits)
  from match_loop_first_fit [OF m [unfolded match_items_def]]
  have om: "om = first_fit (\<lambda>x y. items_match fo x y (check_type opts) ?cfg = Inr True)
                   (enumerate 0 origin_list) current_list []"
    and cm: "set cm = snd ` set om" by simp_all
  have removed: "\<forall>i < length origin_list.
          i \<notin> fst ` set om \<and> \<not> should_exclude (index_path path i) (exclude_fields ?opts)
          \<longrightarrow> ListItemRemoved (index_path path i) \<in> set ds"
    by (auto simp: ds removed_items_def map_of_eq_None_iff)
  have added: "\<forall>j < length current_list.
          j \<notin> snd ` set om \<and> \<not> should_exclude (index_path path j) (exclude_fields ?opts)
          \<longrightarrow> ListItemAdded (index_path path j) \<in> set ds"
    by (auto simp: ds added_items_def cm)
  from m om removed added show ?thesis by blast
qed

theorem order_insensitive_first_fit_witness:
  "check_value default_options
   \<and> get_ignore_order (deep_diff_contrast_config (normalize_options default_options))
   \<and> compare_structures int_floats (PList [PInt 1, PInt 2, PInt 3]) (PList [PInt 3, PInt 1, PInt 5])
       [] default_options = Inr [ListItemRemoved ''[1]'', ListItemAdded ''[2]'']
   \<and> match_items int_floats [PInt 1, PInt 2, PInt 3] [PInt 3, PInt 1, PInt 5] True default_config
       = Inr (first_fit (\<lambda>x y. items_match int_floats x y True default_config = Inr True)
               (enumerate 0 [PInt 1, PInt 2, PInt 3]) [PInt 3, PInt 1, PInt 5] [], [0, 1])"
proof -
  have cv: "check_value default_options" by (simp add: default_options_def)
  have io: "get_ignore_order (deep_diff_contrast_config (normalize_options default_options))"
    by (simp add: eval_defs)
  have res: "compare_structures int_floats (PList [PInt 1, PInt 2, PInt 3])
      (PList [PInt 3, PInt 1, PInt 5]) [] default_options
      = Inr [ListItemRemoved ''[1]'', ListItemAdded ''[2]'']"
    by (simp add: eval_defs)
  have m: "match_items int_floats [PInt 1, PInt 2, PInt 3] [PInt 3, PInt 1, PInt 5] True
      default_config = Inr ([(0, 1), (2, 0)], [0, 1])"
    by (simp add: eval_defs)
  have n: "deep_diff_contrast_config (normalize_options default_options) = default_config"
    "check_type default_options = True"
    by (simp_all add: eval_defs)
  from order_insensitive_first_fit [OF cv io res] cv io res m show ?thesis
    by (simp add: n)
qed

section \<open>Identity (C1)\<close>

lemma all_match_True: "\<forall>r \<in> set rs. r = Inr True \<Longrightarrow> all_match rs = Inr True"
  by (induction rs) auto

lemma concat_results_Nil: "\<forall>r \<in> set rs. r = Inr [] \<Longrightarrow> concat_results rs = Inr []"
  by (induction rs) auto

lemma is_same_type_refl [simp]: "is_same_type v v cfg"
  by (simp add: is_same_type_def)

lemma py_eq_refl: "nan_free fo v \<Longrightarrow> \<not> is_container v \<Longrightarrow> py_eq fo v v"
  by (cases v) auto

lemma type_conversion_judgment_refl [simp]: "type_conversion_judgment fo v v cfg = Inr False"
  by (simp add: type_conversion_judgment_def Let_def)

lemma is_equivalent_value_refl:
  "\<not> is_container v \<Longrightarrow> is_equivalent_value fo v v cfg = Inr False"
  by (cases v) (auto simp: is_equivalent_value_def float_int_equal_def Let_def)

lemma items_match_refl:
  "wf_value v \<Longrightarrow> nan_free fo v \<Longrightarrow> items_match fo v v ct cfg = Inr True"
proof (induction v)
  case (PList xs)
  have "all_match (map (\<lambda>(v, c). items_match fo v c ct cfg) (zip xs xs)) = Inr True"
  proof (rule all_match_True, rule ballI)
    fix r assume "r \<in> set (map (\<lambda>(v, c). items_match fo v c ct cfg) (zip xs xs))"
    then obtain x where "x \<in> set xs" and "r = items_match fo x x ct cfg"
      by (auto simp: zip_same)
    with PList show "r = Inr True" by (auto simp: list_all_iff)
  qed
  then show ?case by (subst items_match.simps) simp
next
  case (PDict kvs)
  have "all_match (map (\<lambda>(key, v). case map_of kvs key of None \<Rightarrow> Inr False
          | Some c \<Rightarrow> items_match fo v c ct cfg) kvs) = Inr True"
  proof (rule all_match_True, rule ballI)
    fix r assume "r \<in> set (map (\<lambda>(key, v). case map_of kvs key of None \<Rightarrow> Inr False
          | Some c \<Rightarrow> items_match fo v c ct cfg) kvs)"
    then obtain key v where kv: "(key, v) \<in> set kvs"
      and r: "r = (case map_of kvs key of None \<Rightarrow> Inr False | Some c \<Rightarrow> items_match fo v c ct cfg)"
      by auto
    from kv PDict.prems have "map_of kvs key = Some v" by simp
    moreover from kv PDict have "items_match fo v v ct cfg = Inr True"
      by (fastforce simp: list_all_iff)
    ultimately show "r = Inr True" using r by simp
  qed
  then show ?case by (subst items_match.simps) simp
next
  case PNone
  show ?case by (subst items_match.simps) simp
next
  case (PBool b)
  show ?case by (subst items_match.simps) simp
next
  case (PInt n)
  show ?case by (subst items_match.simps) simp
next
  case (PFloat x)
  then show ?case by (subst items_match.simps) simp
next
  case (PStr s)
  show ?case by (subst items_match.simps) simp
qed

lemma special_value_check_refl [simp]: "special_value_check v v p = []"
  by (simp add: special_value_check_def)

lemma compare_dict_leaf_refl:
  "nan_free fo v \<Longrightarrow> \<not> is_container v \<Longrightarrow> compare_dict_leaf fo v v p opts = Inr []"
  by (simp add: compare_dict_leaf_def is_equivalent_value_refl py_eq_refl)

lemma compare_list_leaf_refl:
  "nan_free fo v \<Longrightarrow> \<not> is_container v \<Longrightarrow> compare_list_leaf fo v v p opts = Inr []"
  by (simp add: compare_list_leaf_def is_equivalent_value_refl py_eq_refl Let_def)

lemma find_match_hit:
  "j0 \<le> k \<Longrightarrow> k < j0 + length ys \<Longrightarrow> \<forall>j. j0 \<le> j \<and> j < k \<longrightarrow> j \<in> set cm \<Longrightarrow> k \<notin> set cm \<Longrightarrow>
   items_match fo x (ys ! (k - j0)) ct cfg = Inr True \<Longrightarrow>
   find_match fo x (enumerate j0 ys) cm ct cfg = Inr (Some k)"
proof (induction ys arbitrary: j0)
  case Nil
  then show ?case by simp
next
  case (Cons y ys)
  show ?case
  proof (cases "j0 = k")
    case True
    with Cons.prems show ?thesis by simp
  next
    case False
    with Cons.prems have lt: "j0 < k" by simp
    with Cons.prems have in_cm: "j0 \<in> set cm" by blast
    from lt have idx: "(y # ys) ! (k - j0) = ys ! (k - Suc j0)"
      by (simp add: nth_Cons split: nat.splits) (metis Suc_diff_Suc diff_Suc_Suc nat.inject)
    have "find_match fo x (enumerate (Suc j0) ys) cm ct cfg = Inr (Some k)"
      using Cons.prems lt idx by (intro Cons.IH) auto
    with in_cm show ?thesis by simp
  qed
qed

lemma match_loop_refl:
  "\<forall>x \<in> set xs. items_match fo x x ct cfg = Inr True \<Longrightarrow> zs = drop k xs \<Longrightarrow> k \<le> length xs \<Longrightarrow>
   set cm = {..<k} \<Longrightarrow>
   match_loop fo (enumerate k zs) xs om cm ct cfg
     = Inr (om @ map (\<lambda>i. (i, i)) [k..<length xs], rev [k..<length xs] @ cm)"
proof (induction zs arbitrary: k om cm)
  case Nil
  then show ?case by simp
next
  case (Cons z zs)
  from Cons.prems have k: "k < length xs"
    by (metis drop_all list.distinct(1) not_le)
  with Cons.prems have z: "z = xs ! k" and zs: "zs = drop (Suc k) xs"
    by (metis Cons_nth_drop_Suc list.inject)+
  from k Cons.prems have "items_match fo z (xs ! (k - 0)) ct cfg = Inr True"
    by (simp add: z)
  with k Cons.prems have hit: "find_match fo z (enumerate 0 xs) cm ct cfg = Inr (Some k)"
    by (intro find_match_hit) auto
  have "match_loop fo (enumerate (Suc k) zs) xs (om @ [(k, k)]) (k # cm) ct cfg
      = Inr ((om @ [(k, k)]) @ map (\<lambda>i. (i, i)) [Suc k..<length xs],
             rev [Suc k..<length xs] @ k # cm)"
    using Cons.prems k zs by (intro Cons.IH) (auto simp: lessThan_Suc)
  with hit k show ?case by (simp add: upt_rec [of k])
qed

lemma match_items_refl:
  "\<forall>x \<in> set xs. items_match fo x x ct cfg = Inr True \<Longrightarrow>
   match_items fo xs xs ct cfg = Inr (map (\<lambda>i. (i, i)) [0..<length xs], rev [0..<length xs])"
  using match_loop_refl [of xs fo ct cfg xs 0 "[]" "[]"] by (simp add: match_items_def)

lemma map_of_diag: "map_of (map (\<lambda>i. (i, i)) [0..<n]) i = (if i < n then Some i else None)"
  by (induction n) (auto simp: map_add_def split: option.splits)

lemma dict_items_keys: "map fst (map (\<lambda>(key, v). (key, v, f v)) kvs) = map fst kvs"
  by (induction kvs) auto

lemma compare_lists_refl:
  assumes wf: "\<forall>x \<in> set xs. wf_value x" and nf: "\<forall>x \<in> set xs. nan_free fo x"
    and IH: "\<And>x p os. x \<in> set xs \<Longrightarrow> is_container x \<Longrightarrow> compare_structures fo x x p os = Inr []"
  shows "compare_lists fo (map (\<lambda>(i, v). (i, v, (\<lambda>c p os. compare_structures fo v c p os)))
           (enumerate 0 xs)) xs path opts = Inr []"
proof -
  let ?f = "\<lambda>v c p os. compare_structures fo v c p os"
  let ?items = "map (\<lambda>(i, v). (i, v, ?f v)) (enumerate 0 xs)"
  let ?cfg = "deep_diff_contrast_config opts"
  have len: "length ?items = length xs" by simp
  show ?thesis
  proof (cases "check_value opts")
    case False
    have "\<forall>r \<in> set (map (compare_list_item path opts) (zip ?items xs)). r = Inr []"
    proof
      fix r assume "r \<in> set (map (compare_list_item path opts) (zip ?items xs))"
      then obtain pair where "pair \<in> set (zip ?items xs)" and r: "r = compare_list_item path opts pair"
        unfolding set_map by blast
      from list_items_zip [OF this(1)] obtain i where i: "i < length xs"
        and pair: "pair = ((i, xs ! i, ?f (xs ! i)), xs ! i)" by blast
      from i have "xs ! i \<in> set xs" by simp
      with IH show "r = Inr []" unfolding r pair
        by (simp add: compare_list_item_def Let_def)
    qed
    with False show ?thesis by (simp add: compare_lists_def concat_results_Nil)
  next
    case True
    show ?thesis
    proof (cases "get_ignore_order ?cfg")
      case io: True
      have refl: "\<forall>x \<in> set xs. items_match fo x x (check_type opts) ?cfg = Inr True"
        using wf nf by (simp add: items_match_refl)
      have m: "match_items fo (map (\<lambda>item. fst (snd item)) ?items) xs (check_type opts) ?cfg
          = Inr (map (\<lambda>i. (i, i)) [0..<length xs], rev [0..<length xs])"
        by (simp only: list_items_values match_items_refl [OF refl])
      have matched: "\<forall>r \<in> set (map (native_matched_item fo xs path opts
            (map (\<lambda>i. (i, i)) [0..<length xs])) ?items). r = Inr []"
      proof
        fix r assume "r \<in> set (map (native_matched_item fo xs path opts
            (map (\<lambda>i. (i, i)) [0..<length xs])) ?items)"
        then obtain item where "item \<in> set ?items"
          and r: "r = native_matched_item fo xs path opts (map (\<lambda>i. (i, i)) [0..<length xs]) item"
          unfolding set_map by blast
        from list_items_nth [OF this(1)] obtain i where i: "i < length xs"
          and item: "item = (i, xs ! i, ?f (xs ! i))" by blast
        from i have mem: "xs ! i \<in> set xs" by simp
        with nf have "nan_free fo (xs ! i)" by blast
        with i mem IH show "r = Inr []" unfolding r item
          by (cases "xs ! i")
            (simp_all add: native_matched_item_def map_of_diag Let_def compare_list_leaf_refl)
      qed
      have "removed_items (map (\<lambda>i. (i, i)) [0..<length xs]) (length ?items) path opts = []"
        by (simp add: removed_items_def map_of_diag)
      moreover have "added_items (rev [0..<length xs]) 0 (length xs) path opts = []"
        by (simp add: added_items_def)
      ultimately show ?thesis using True io m concat_results_Nil [OF matched]
        by (simp add: compare_lists_def compare_lists_native_def)
    next
      case io: False
      have indexed: "\<forall>r \<in> set (map (native_indexed_item fo xs path opts) ?items). r = Inr []"
      proof
        fix r assume "r \<in> set (map (native_indexed_item fo xs path opts) ?items)"
        then obtain item where "item \<in> set ?items"
          and r: "r = native_indexed_item fo xs path opts item"
          unfolding set_map by blast
        from list_items_nth [OF this(1)] obtain i where i: "i < length xs"
          and item: "item = (i, xs ! i, ?f (xs ! i))" by blast
        from i have mem: "xs ! i \<in> set xs" by simp
        with nf have "nan_free fo (xs ! i)" by blast
        with i mem IH show "r = Inr []" unfolding r item
          by (simp add: native_indexed_item_def Let_def compare_list_leaf_refl)
      qed
      have "added_items [] (length ?items) (length xs) path opts = []"
        by (simp add: added_items_def)
      then show ?thesis using True io concat_results_Nil [OF indexed]
        by (simp add: compare_lists_def compare_lists_native_def)
    qed
  qed
qed

lemma compare_dicts_refl:
  assumes nf: "\<forall>kv \<in> set kvs. nan_free fo (snd kv)" and dist: "distinct (map fst kvs)"
    and IH: "\<And>k v p os. (k, v) \<in> set kvs \<Longrightarrow> is_container v \<Longrightarrow> compare_structures fo v v p os = Inr []"
  shows "compare_dicts fo (map (\<lambda>(key, v). (key, v, (\<lambda>c p os. compare_structures fo v c p os))) kvs)
           kvs path opts = Inr []"
proof -
  let ?f = "\<lambda>v c p os. compare_structures fo v c p os"
  let ?items = "map (\<lambda>(key, v). (key, v, ?f v)) kvs"
  have items: "\<forall>r \<in> set (map (compare_dict_item fo kvs path opts) ?items). r = Inr []"
  proof
    fix r assume "r \<in> set (map (compare_dict_item fo kvs path opts) ?items)"
    then obtain k v where kv: "(k, v) \<in> set kvs"
      and r: "r = compare_dict_item fo kvs path opts (k, v, ?f v)"
      by auto
    from kv dist have look: "map_of kvs k = Some v" by simp
    from kv nf have "nan_free fo v" by auto
    with kv IH look show "r = Inr []" unfolding r
      by (simp add: compare_dict_item_def Let_def compare_dict_leaf_refl)
  qed
  have "redundant_fields (map fst ?items) kvs path opts = []"
    by (simp only: dict_items_keys) (auto simp: redundant_fields_def)
  with concat_results_Nil [OF items] show ?thesis
    by (simp add: compare_dicts_def)
qed

text \<open>
  The claim C1 as stated fails on a value that holds a NaN: a NaN differs from itself, the
  leaf comparison asks \<open>origin_val != current_val\<close>, and the map \<open>{a: nan}\<close> compared with itself
  gives a \<open>ValueChanged\<close> record at \<open>a\<close>.
\<close>

theorem nan_identity_counterexample:
  "wf_value (PDict [(''a'', PFloat None :: int option pyval)])
   \<and> compare_structures nan_floats (PDict [(''a'', PFloat None)]) (PDict [(''a'', PFloat None)])
         [] default_options = Inr [ValueChanged ''a'']"
  by (simp add: eval_defs nan_floats_def float_int_equal_def)

text \<open>
  C1, amended. For every well-formed value that holds no NaN and whose root is a map or a
  sequence, comparing the value with itself returns no record, whatever the path and the
  options.
\<close>

theorem identity_no_difference:
  "wf_value v \<Longrightarrow> nan_free fo v \<Longrightarrow> is_container v \<Longrightarrow>
   compare_structures fo v v path opts = Inr []"
proof (induction v arbitrary: path opts)
  case (PList xs)
  have "compare_lists fo (map (\<lambda>(i, v). (i, v, (\<lambda>c p os. compare_structures fo v c p os)))
           (enumerate 0 xs)) xs path (normalize_options opts) = Inr []"
    using PList by (intro compare_lists_refl) (auto simp: list_all_iff)
  then show ?case by (simp add: compare_structures_PList)
next
  case (PDict kvs)
  have "compare_dicts fo (map (\<lambda>(key, v). (key, v, (\<lambda>c p os. compare_structures fo v c p os))) kvs)
           kvs path (normalize_options opts) = Inr []"
  proof (rule compare_dicts_refl)
    show "\<forall>kv \<in> set kvs. nan_free fo (snd kv)" using PDict.prems by (simp add: list_all_iff)
    show "distinct (map fst kvs)" using PDict.prems by simp
    fix k v p os assume kv: "(k, v) \<in> set kvs" and c: "is_container v"
    from kv PDict.prems have "wf_value v" "nan_free fo v" by (auto simp: list_all_iff)
    with kv c show "compare_structures fo v v p os = Inr []"
      by (intro PDict.IH [of "(k, v)" v]) auto
  qed
  then show ?case by (simp add: compare_structures_PDict)
qed simp_all

theorem identity_no_difference_witness:
  "wf_value (PDict [(''a'', PList [PInt 1, PStr ''x'']), (''b'', PDict [(''c'', PNone :: int pyval)])])
   \<and> nan_free int_floats (PDict [(''a'', PList [PInt 1, PStr ''x'']), (''b'', PDict [(''c'', PNone)])])
   \<and> is_container (PDict [(''a'', PList [PInt 1, PStr ''x'']), (''b'', PDict [(''c'', PNone :: int pyval)])])
   \<and> compare_structures int_floats
         (PDict [(''a'', PList [PInt 1, PStr ''x'']), (''b'', PDict [(''c'', PNone)])])
         (PDict [(''a'', PList [PInt 1, PStr ''x'']), (''b'', PDict [(''c'', PNone)])])
         [] default_options = Inr []"
  using identity_no_difference [of
      "PDict [(''a'', PList [PInt 1, PStr ''x'']), (''b'', PDict [(''c'', PNone)])]" int_floats "[]"
      default_options]
  by simp

section \<open>The paths of the records (C9)\<close>

text \<open>
  \<open>_format_path\<close> leaves a path alone unless it holds a quoted index \<^verbatim>\<open>['digits']\<close>; it is
  idempotent, and it works on the two sides of a dot, or of the bracket of an index, apart.
\<close>

lemma format_path_Cons_other: "c \<noteq> CHR ''['' \<Longrightarrow> format_path (c # cs) = c # format_path cs"
  by (simp add: format_path.simps(2))

lemma format_path_hd: "\<exists>t. format_path (c # cs) = c # t"
  by (auto simp: format_path.simps(2) split: option.splits)

lemma format_path_no_bracket:
  "\<forall>c \<in> set ds. c \<noteq> CHR ''['' \<Longrightarrow> format_path (ds @ t) = ds @ format_path t"
  by (induction ds) (auto simp: format_path_Cons_other)

lemma is_decimal_not_special:
  "is_decimal c \<Longrightarrow> c \<noteq> CHR ''['' \<and> c \<noteq> CHR 0x27 \<and> c \<noteq> CHR '']'' \<and> c \<noteq> CHR ''.''"
  by (auto simp: is_decimal_def digit_of_def)

lemma quoted_index_digits:
  "quoted_index cs = Some (ds, rest) \<Longrightarrow>
   cs = CHR 0x27 # ds @ CHR 0x27 # CHR '']'' # rest \<and> ds \<noteq> [] \<and> (\<forall>c \<in> set ds. is_decimal c)"
proof -
  assume a: "quoted_index cs = Some (ds, rest)"
  then obtain r where cs: "cs = CHR 0x27 # r" and ds: "ds = takeWhile is_decimal r" "ds \<noteq> []"
    and t: "take 2 (dropWhile is_decimal r) = [CHR 0x27, CHR '']'']"
    and rest: "rest = drop 2 (dropWhile is_decimal r)"
    by (auto simp: quoted_index_def split: list.splits if_splits)
  have "r = takeWhile is_decimal r @ dropWhile is_decimal r" by simp
  moreover have "dropWhile is_decimal r = take 2 (dropWhile is_decimal r) @ drop 2 (dropWhile is_decimal r)"
    by simp
  ultimately have "r = ds @ CHR 0x27 # CHR '']'' # rest"
    using ds t rest by (metis append_Cons append_Nil)
  moreover have "\<forall>c \<in> set ds. is_decimal c" unfolding ds by (auto dest: set_takeWhileD)
  ultimately show ?thesis using cs ds by simp
qed

lemma quoted_index_intro:
  "ds \<noteq> [] \<Longrightarrow> \<forall>c \<in> set ds. is_decimal c \<Longrightarrow>
   quoted_index (CHR 0x27 # ds @ CHR 0x27 # CHR '']'' # rest) = Some (ds, rest)"
proof -
  assume ds: "ds \<noteq> []" "\<forall>c \<in> set ds. is_decimal c"
  have nd: "\<not> is_decimal (CHR 0x27)" by (simp add: is_decimal_def digit_of_def)
  from ds nd have "takeWhile is_decimal (ds @ CHR 0x27 # CHR '']'' # rest) = ds"
    by (simp add: takeWhile_append2)
  moreover from ds nd have "dropWhile is_decimal (ds @ CHR 0x27 # CHR '']'' # rest) = CHR 0x27 # CHR '']'' # rest"
    by (simp add: dropWhile_append2)
  ultimately show ?thesis using ds by (simp add: quoted_index_def)
qed

lemma quoted_index_None_iff:
  "quoted_index cs = None \<longleftrightarrow>
   \<not> (\<exists>ds rest. ds \<noteq> [] \<and> (\<forall>c \<in> set ds. is_decimal c) \<and> cs = CHR 0x27 # ds @ CHR 0x27 # CHR '']'' # rest)"
  using quoted_index_digits quoted_index_intro
  by (metis not_Some_eq option.distinct(1) surj_pair)

lemma format_path_Cons_inv:
  "format_path r = d # u \<Longrightarrow> d \<noteq> CHR ''['' \<Longrightarrow> \<exists>r'. r = d # r' \<and> format_path r' = u"
proof (cases r)
  case Nil
  assume "format_path r = d # u" with Nil show ?thesis by simp
next
  case (Cons x xs)
  assume a: "format_path r = d # u" and d: "d \<noteq> CHR ''[''"
  from format_path_hd [of x xs] a Cons have "x = d" by auto
  with a d Cons show ?thesis by (simp add: format_path_Cons_other)
qed

lemma format_path_append_inv:
  "format_path r = ds @ u \<Longrightarrow> \<forall>c \<in> set ds. c \<noteq> CHR ''['' \<Longrightarrow> \<exists>r'. r = ds @ r' \<and> format_path r' = u"
proof (induction ds arbitrary: r)
  case Nil
  then show ?case by simp
next
  case (Cons d ds)
  from Cons.prems obtain r1 where r: "r = d # r1" and f: "format_path r1 = ds @ u"
    using format_path_Cons_inv [of r d "ds @ u"] by auto
  from Cons.IH [OF f] Cons.prems obtain r' where "r1 = ds @ r'" "format_path r' = u" by auto
  with r show ?case by simp
qed

lemma quoted_index_format_path:
  "quoted_index (format_path cs) = map_option (\<lambda>(ds, rest). (ds, format_path rest)) (quoted_index cs)"
proof (cases "quoted_index cs")
  case (Some a)
  obtain ds rest where a: "a = (ds, rest)" by (cases a)
  from quoted_index_digits [OF Some [unfolded a]]
  have cs: "cs = CHR 0x27 # ds @ CHR 0x27 # CHR '']'' # rest" and ds: "ds \<noteq> []" "\<forall>c \<in> set ds. is_decimal c"
    by auto
  from ds have nb: "\<forall>c \<in> set ds. c \<noteq> CHR ''[''" using is_decimal_not_special by blast
  have "format_path cs = CHR 0x27 # ds @ CHR 0x27 # CHR '']'' # format_path rest"
    unfolding cs by (simp add: format_path_Cons_other format_path_no_bracket [OF nb])
  with ds Some a show ?thesis by (simp add: quoted_index_intro)
next
  case None
  have "quoted_index (format_path cs) = None"
  proof (rule ccontr)
    assume "quoted_index (format_path cs) \<noteq> None"
    then obtain ds rest where "quoted_index (format_path cs) = Some (ds, rest)" by auto
    from quoted_index_digits [OF this]
    have f: "format_path cs = CHR 0x27 # ds @ CHR 0x27 # CHR '']'' # rest"
      and ds: "ds \<noteq> []" "\<forall>c \<in> set ds. is_decimal c" by auto
    from ds have nb: "\<forall>c \<in> set ds. c \<noteq> CHR ''[''" using is_decimal_not_special by blast
    from format_path_Cons_inv [OF f] obtain r1 where cs: "cs = CHR 0x27 # r1"
      and f1: "format_path r1 = ds @ CHR 0x27 # CHR '']'' # rest" by auto
    from format_path_append_inv [OF f1 nb] obtain r2 where r1: "r1 = ds @ r2"
      and f2: "format_path r2 = CHR 0x27 # CHR '']'' # rest" by auto
    from format_path_Cons_inv [OF f2] obtain r3 where r2: "r2 = CHR 0x27 # r3"
      and f3: "format_path r3 = CHR '']'' # rest" by auto
    from format_path_Cons_inv [OF f3] obtain r4 where r3: "r3 = CHR '']'' # r4" by auto
    have "cs = CHR 0x27 # ds @ CHR 0x27 # CHR '']'' # r4" by (simp add: cs r1 r2 r3)
    with quoted_index_intro [OF ds, of r4] None show False by simp
  qed
  with None show ?thesis by simp
qed

lemma format_path_idem: "format_path (format_path s) = format_path s"
proof (induction s rule: format_path.induct)
  case 1
  then show ?case by simp
next
  case (2 c cs)
  show ?case
  proof (cases "c = CHR ''[''")
    case False
    with 2 show ?thesis by (simp add: format_path_Cons_other)
  next
    case True
    show ?thesis
    proof (cases "quoted_index cs")
      case None
      then have "quoted_index (format_path cs) = None" by (simp add: quoted_index_format_path)
      with None True 2 show ?thesis by (simp add: format_path.simps(2))
    next
      case (Some a)
      obtain ds rest where a: "a = (ds, rest)" by (cases a)
      from quoted_index_digits [OF Some [unfolded a]]
      have ds: "ds \<noteq> []" "\<forall>c \<in> set ds. is_decimal c" by auto
      from ds have nb: "\<forall>c \<in> set ds. c \<noteq> CHR ''[''" using is_decimal_not_special by blast
      from ds obtain d ds' where dd: "ds = d # ds'" "is_decimal d" by (cases ds) auto
      then have "d \<noteq> CHR 0x27" using is_decimal_not_special by blast
      then have q: "quoted_index (ds @ CHR '']'' # format_path rest) = None"
        by (simp add: dd quoted_index_def)
      have IH: "format_path (format_path rest) = format_path rest"
        using 2(2) [OF True Some a [symmetric]] .
      have "format_path (c # cs) = CHR ''['' # ds @ CHR '']'' # format_path rest"
        using True Some a by (simp add: format_path.simps(2))
      moreover have "format_path (CHR ''['' # ds @ CHR '']'' # format_path rest)
          = CHR ''['' # ds @ CHR '']'' # format_path rest"
        using q IH by (simp add: format_path.simps(2) format_path_no_bracket [OF nb] format_path_Cons_other)
      ultimately show ?thesis by simp
    qed
  qed
qed

lemma quoted_index_append:
  assumes c: "c \<noteq> CHR 0x27" "c \<noteq> CHR '']''" "\<not> is_decimal c"
  shows "quoted_index (cs @ c # t) = map_option (\<lambda>(ds, rest). (ds, rest @ c # t)) (quoted_index cs)"
proof (cases cs)
  case Nil
  with c show ?thesis by (simp add: quoted_index_def)
next
  case (Cons q r)
  show ?thesis
  proof (cases "q = CHR 0x27")
    case False
    with Cons show ?thesis by (simp add: quoted_index_def)
  next
    case True
    show ?thesis
    proof (cases "\<forall>x \<in> set r. is_decimal x")
      case all: True
      then have dw: "dropWhile is_decimal (r @ c # t) = c # t" "dropWhile is_decimal r = []"
        using c by (simp_all add: dropWhile_append2)
      from Cons True c show ?thesis by (simp add: quoted_index_def dw del: dropWhile_eq_Nil_conv)
    next
      case False
      then have tw: "takeWhile is_decimal (r @ c # t) = takeWhile is_decimal r"
        and dw: "dropWhile is_decimal (r @ c # t) = dropWhile is_decimal r @ c # t"
        by (auto simp: takeWhile_append1 dropWhile_append1)
      from False have ne: "dropWhile is_decimal r \<noteq> []" by (simp add: dropWhile_eq_Nil_conv)
      show ?thesis
      proof (cases "dropWhile is_decimal r")
        case Nil
        with ne show ?thesis by simp
      next
        case d1: (Cons x d')
        show ?thesis
        proof (cases d')
          case Nil
          with d1 Cons True c tw dw show ?thesis by (simp add: quoted_index_def)
        next
          case (Cons y d'')
          with d1 \<open>cs = q # r\<close> True tw dw show ?thesis by (simp add: quoted_index_def)
        qed
      qed
    qed
  qed
qed

lemma format_path_append:
  assumes c: "c \<noteq> CHR 0x27" "c \<noteq> CHR '']''" "\<not> is_decimal c"
  shows "format_path (p @ c # t) = format_path p @ format_path (c # t)"
proof (induction p rule: format_path.induct)
  case 1
  then show ?case by simp
next
  case (2 a cs)
  show ?case
  proof (cases "a = CHR ''[''")
    case False
    with 2 show ?thesis by (simp add: format_path_Cons_other)
  next
    case True
    show ?thesis
    proof (cases "quoted_index cs")
      case None
      with 2 True show ?thesis
        by (simp add: format_path.simps(2) quoted_index_append [OF c])
    next
      case (Some x)
      obtain ds rest where x: "x = (ds, rest)" by (cases x)
      from 2(2) [OF True Some x [symmetric]] True Some x show ?thesis
        by (simp add: format_path.simps(2) quoted_index_append [OF c])
    qed
  qed
qed

lemma is_decimal_digit_char: "is_decimal (digit_char d)"
proof -
  have "d mod 10 < 10" by simp
  then have "d mod 10 \<in> {0, 1, 2, 3, 4, 5, 6, 7, 8, 9}" by (simp only: insert_iff empty_iff) arith
  then show ?thesis
    by (auto simp: digit_char_def is_decimal_def digit_of_def)
qed

lemma str_of_nat_digits: "str_of_nat n \<noteq> [] \<and> (\<forall>c \<in> set (str_of_nat n). is_decimal c)"
proof (induction n rule: str_of_nat.induct)
  case (1 n)
  show ?case
    using 1 by (subst (1 2) str_of_nat.simps) (auto simp: is_decimal_digit_char)
qed

lemma format_path_index:
  "format_path (CHR ''['' # str_of_nat i @ '']'') = CHR ''['' # str_of_nat i @ '']''"
proof -
  from str_of_nat_digits [of i] obtain d ds where s: "str_of_nat i = d # ds"
    and dec: "\<forall>c \<in> set (d # ds). is_decimal c"
    by (cases "str_of_nat i") auto
  then have "d \<noteq> CHR 0x27" using is_decimal_not_special by auto
  then have q: "quoted_index (str_of_nat i @ '']'') = None" by (simp add: s quoted_index_def)
  from dec have nb: "\<forall>c \<in> set (str_of_nat i). c \<noteq> CHR ''[''" using is_decimal_not_special s by metis
  show ?thesis using q
    by (simp add: format_path.simps(2) format_path_no_bracket [OF nb] format_path_Cons_other)
qed

lemma index_path_normal:
  "format_path path = path \<Longrightarrow>
   format_path (index_path path i) = index_path path i \<and> prefix path (index_path path i)"
proof -
  assume n: "format_path path = path"
  have "\<not> is_decimal (CHR ''['')" by (simp add: is_decimal_def digit_of_def)
  then have "format_path (path @ CHR ''['' # str_of_nat i @ '']'')
      = format_path path @ format_path (CHR ''['' # str_of_nat i @ '']'')"
    by (intro format_path_append) simp_all
  with n show ?thesis by (simp add: index_path_def format_path_index)
qed

lemma key_path_normal:
  "format_path path = path \<Longrightarrow>
   format_path (key_path path key) = key_path path key \<and> prefix path (key_path path key)"
proof (cases "path = []")
  case True
  then show ?thesis by (simp add: key_path_def format_path_idem)
next
  case False
  assume n: "format_path path = path"
  have "\<not> is_decimal (CHR ''.'')" by (simp add: is_decimal_def digit_of_def)
  then have "format_path (path @ CHR ''.'' # key) = format_path path @ format_path (CHR ''.'' # key)"
    by (intro format_path_append) simp_all
  with n have k: "key_path path key = path @ CHR ''.'' # format_path key"
    using False by (simp add: key_path_def format_path_Cons_other)
  have "\<not> is_decimal (CHR ''.'')" by (simp add: is_decimal_def digit_of_def)
  then have "format_path (path @ CHR ''.'' # format_path key)
      = format_path path @ format_path (CHR ''.'' # format_path key)"
    by (intro format_path_append) simp_all
  with n k show ?thesis by (simp add: format_path_Cons_other format_path_idem)
qed

lemma all_under_Inr [simp]: "all_under path (Inr ds) = (\<forall>d \<in> set ds. prefix path (diff_path d))"
  by (simp add: all_under_def)

lemma all_under_Inl [simp]: "all_under path (Inl e)"
  by (simp add: all_under_def)

lemma all_under_mono: "prefix p q \<Longrightarrow> all_under q r \<Longrightarrow> all_under p r"
  by (cases r) (auto intro: prefix_order.trans)

lemma all_under_concat_results:
  "\<forall>r \<in> set rs. all_under path r \<Longrightarrow> all_under path (concat_results rs)"
  by (induction rs) (auto split: sum.splits)

lemma all_under_special: "\<forall>d \<in> set (special_value_check a b p). diff_path d = p"
  by (simp add: special_value_check_def)

lemma all_under_dict_leaf: "all_under p (compare_dict_leaf fo a b p opts)"
  by (auto simp: compare_dict_leaf_def all_under_def special_value_check_def split: sum.splits)

lemma all_under_list_leaf: "all_under p (compare_list_leaf fo a b p opts)"
  by (auto simp: compare_list_leaf_def all_under_def Let_def split: sum.splits)

lemma all_under_compare_dicts:
  assumes n: "format_path path = path"
    and rec: "\<forall>(key, v, recurse) \<in> set items. \<forall>c os.
                all_under (key_path path key) (recurse c (key_path path key) os)"
  shows "all_under path (compare_dicts fo items current_dict path opts)"
proof -
  have "\<forall>r \<in> set (map (compare_dict_item fo current_dict path opts) items). all_under path r"
  proof
    fix r assume "r \<in> set (map (compare_dict_item fo current_dict path opts) items)"
    then obtain key v recurse where item: "(key, v, recurse) \<in> set items"
      and r: "r = compare_dict_item fo current_dict path opts (key, v, recurse)"
      by auto
    from key_path_normal [OF n] have p: "prefix path (key_path path key)" by simp
    from item rec have "\<forall>c os. all_under (key_path path key) (recurse c (key_path path key) os)"
      by auto
    then have "all_under (key_path path key) r"
      unfolding r by (auto simp: compare_dict_item_def Let_def all_under_dict_leaf split: option.splits)
    with p show "all_under path r" by (rule all_under_mono)
  qed
  then have "all_under path (concat_results (map (compare_dict_item fo current_dict path opts) items))"
    by (rule all_under_concat_results)
  moreover have "\<forall>d \<in> set (redundant_fields ks current_dict path opts). prefix path (diff_path d)" for ks
    using key_path_normal [OF n] by (auto simp: redundant_fields_def)
  ultimately show ?thesis
    by (auto simp: compare_dicts_def split: sum.splits)
qed

lemma all_under_compare_lists:
  assumes n: "format_path path = path"
    and rec: "\<forall>(i, v, recurse) \<in> set items. \<forall>c os.
                all_under (index_path path i) (recurse c (index_path path i) os)"
  shows "all_under path (compare_lists fo items current_list path opts)"
proof -
  have p: "prefix path (index_path path i)" for i
    using index_path_normal [OF n] by simp
  have matched: "all_under path (native_matched_item fo current_list path opts om item)"
    if "item \<in> set items" for om item
  proof -
    obtain i v recurse where item: "item = (i, v, recurse)" by (cases item)
    with that rec have "\<forall>c os. all_under (index_path path i) (recurse c (index_path path i) os)"
      by auto
    then have "all_under (index_path path i) (native_matched_item fo current_list path opts om item)"
      unfolding item
      by (auto simp: native_matched_item_def Let_def all_under_list_leaf split: option.splits)
    with p show ?thesis by (rule all_under_mono)
  qed
  have indexed: "all_under path (native_indexed_item fo current_list path opts item)"
    if "item \<in> set items" for item
  proof -
    obtain i v recurse where item: "item = (i, v, recurse)" by (cases item)
    with that rec have "\<forall>c os. all_under (index_path path i) (recurse c (index_path path i) os)"
      by auto
    then have "all_under (index_path path i) (native_indexed_item fo current_list path opts item)"
      unfolding item
      by (auto simp: native_indexed_item_def Let_def all_under_list_leaf)
    with p show ?thesis by (rule all_under_mono)
  qed
  have plain: "all_under path (compare_list_item path opts pair)"
    if "pair \<in> set (zip items current_list)" for pair
  proof -
    obtain i v recurse c where pair: "pair = ((i, v, recurse), c)" by (cases pair) auto
    with that have "(i, v, recurse) \<in> set items" by (auto dest: set_zip_leftD)
    with rec have "\<forall>c os. all_under (index_path path i) (recurse c (index_path path i) os)"
      by auto
    then have "all_under (index_path path i) (compare_list_item path opts pair)"
      unfolding pair
      by (auto simp: compare_list_item_def Let_def special_value_check_def)
    with p show ?thesis by (rule all_under_mono)
  qed
  have removed: "\<forall>d \<in> set (removed_items om k path opts). prefix path (diff_path d)" for om k
    using p by (auto simp: removed_items_def)
  have added: "\<forall>d \<in> set (added_items cm m k path opts). prefix path (diff_path d)" for cm m k
    using p by (auto simp: added_items_def)
  have m: "all_under path (concat_results (map (native_matched_item fo current_list path opts om) items))" for om
    by (rule all_under_concat_results) (auto intro: matched)
  have i: "all_under path (concat_results (map (native_indexed_item fo current_list path opts) items))"
    by (rule all_under_concat_results) (auto intro: indexed)
  have z: "all_under path (concat_results (map (compare_list_item path opts) (zip items current_list)))"
    by (rule all_under_concat_results) (auto intro: plain)
  have native: "all_under path (compare_lists_native fo items current_list path opts)"
  proof (cases "get_ignore_order (deep_diff_contrast_config opts)")
    case False
    with i added [of "[]"] show ?thesis
      by (auto simp: compare_lists_native_def split: sum.splits)
  next
    case True
    show ?thesis
    proof (cases "match_items fo (map (\<lambda>item. fst (snd item)) items) current_list
                    (check_type opts) (deep_diff_contrast_config opts)")
      case (Inl e)
      with True show ?thesis by (simp add: compare_lists_native_def)
    next
      case (Inr pair)
      obtain om cm where pair: "pair = (om, cm)" by (cases pair)
      from m [of om] removed [of om] added [of cm] True Inr pair show ?thesis
        by (auto simp: compare_lists_native_def split: sum.splits)
    qed
  qed
  show ?thesis using native z by (simp add: compare_lists_def)
qed

lemma all_under_compare_structures:
  "format_path path = path \<Longrightarrow>
   all_under path (compare_structures fo origin_data current_data path opts)"
proof (induction origin_data arbitrary: current_data path opts)
  case (PList xs)
  have "all_under path (compare_lists fo
      (map (\<lambda>(i, v). (i, v, (\<lambda>c p os. compare_structures fo v c p os))) (enumerate 0 xs))
      cl path os)" for cl os
  proof (rule all_under_compare_lists [OF PList.prems], clarify)
    fix i v recurse c os'
    assume "(i, v, recurse) \<in> set (map (\<lambda>(i, v). (i, v, (\<lambda>c p os. compare_structures fo v c p os)))
        (enumerate 0 xs))"
    from list_items_nth [OF this] obtain j where "j < length xs"
      and "(i, v, recurse) = (j, xs ! j, (\<lambda>c p os. compare_structures fo (xs ! j) c p os))"
      by blast
    then have v: "v \<in> set xs" and r: "recurse = (\<lambda>c p os. compare_structures fo v c p os)" by auto
    from index_path_normal [OF PList.prems] have "format_path (index_path path i) = index_path path i"
      by simp
    from PList.IH [OF v this] show "all_under (index_path path i) (recurse c (index_path path i) os')"
      by (simp add: r)
  qed
  then show ?case
    by (auto simp: compare_structures_PList Let_def split: pyval.splits)
next
  case (PDict kvs)
  have "all_under path (compare_dicts fo
      (map (\<lambda>(key, v). (key, v, (\<lambda>c p os. compare_structures fo v c p os))) kvs)
      cd path os)" for cd os
  proof (rule all_under_compare_dicts [OF PDict.prems], clarify)
    fix key v recurse c os'
    assume "(key, v, recurse) \<in> set (map (\<lambda>(key, v). (key, v, (\<lambda>c p os. compare_structures fo v c p os))) kvs)"
    then have kv: "(key, v) \<in> set kvs" and r: "recurse = (\<lambda>c p os. compare_structures fo v c p os)"
      by auto
    from key_path_normal [OF PDict.prems] have "format_path (key_path path key) = key_path path key"
      by simp
    from PDict.IH [of "(key, v)" v, OF kv _ this]
    show "all_under (key_path path key) (recurse c (key_path path key) os')"
      by (simp add: r)
  qed
  then show ?case
    by (auto simp: compare_structures_PDict Let_def split: pyval.splits)
qed (auto simp: compare_structures_scalar Let_def)

text \<open>
  The claim C9 as stated fails for a path argument that holds a quoted index: \<open>_format_path\<close>
  rewrites the whole of \<open>path.key\<close>, the part that is the argument too, and the record's path
  \<^verbatim>\<open>a[0].k\<close> does not extend the argument \<^verbatim>\<open>a['0']\<close>.
\<close>

theorem quoted_path_counterexample:
  "compare_structures int_floats (PDict [(''k'', PInt 1)]) (PDict [(''k'', PInt 2)])
     [CHR ''a'', CHR ''['', CHR 0x27, CHR ''0'', CHR 0x27, CHR '']''] default_options
     = Inr [ValueChanged ''a[0].k'']
   \<and> \<not> prefix [CHR ''a'', CHR ''['', CHR 0x27, CHR ''0'', CHR 0x27, CHR '']''] ''a[0].k''"
  by (simp add: eval_defs)

text \<open>
  C9, amended. When the path argument is in the form \<open>_format_path\<close> gives (it holds no
  quoted index; the empty path and every path the differ builds are so), every record a
  call of \<open>compare_structures\<close> returns has a path that extends the argument.
\<close>

theorem records_extend_path:
  "format_path path = path \<Longrightarrow>
   compare_structures fo origin_data current_data path opts = Inr ds \<Longrightarrow>
   \<forall>d \<in> set ds. prefix path (diff_path d)"
  using all_under_compare_structures [of path fo origin_data current_data opts] by simp

theorem records_extend_path_witness:
  "format_path ''data'' = ''data''
   \<and> compare_structures int_floats (PDict [(''k'', PList [PInt 1])]) (PDict [(''k'', PList [PInt 2])])
       ''data'' default_options
     = Inr [ListItemRemoved ''data.k[0]'', ListItemAdded ''data.k[0]'']
   \<and> prefix ''data'' ''data.k[0]''"
proof -
  have n: "format_path ''data'' = ''data''" by (simp add: format_path.simps(2))
  have r: "compare_structures int_floats (PDict [(''k'', PList [PInt 1])])
      (PDict [(''k'', PList [PInt 2])]) ''data'' default_options
     = Inr [ListItemRemoved ''data.k[0]'', ListItemAdded ''data.k[0]'']"
    by (simp add: eval_defs)
  from records_extend_path [OF n r]
  have "prefix ''data'' (diff_path (ListItemRemoved ''data.k[0]''))" by simp
  then have p: "prefix ''data'' ''data.k[0]''" by simp
  show ?thesis by (intro conjI n r p)
qed

section \<open>Missing and redundant fields (C5)\<close>

lemma normalize_options_idem [simp]: "normalize_options (normalize_options opts) = normalize_options opts"
  by (simp add: normalize_options_def empty_config_def default_config_def)


lemma normalize_options_flags [simp]:
  "check_value (normalize_options opts) = check_value opts"
  "check_missing (normalize_options opts) = check_missing opts"
  "check_redundant (normalize_options opts) = check_redundant opts"
  "check_type (normalize_options opts) = check_type opts"
  by (simp_all add: normalize_options_def)

lemma native_options_flags [simp]:
  "check_value (native_options opts)" "check_missing (native_options opts)"
  "\<not> check_redundant (native_options opts)"
  "check_type (native_options opts) = check_type opts"
  "exclude_fields (native_options opts) = exclude_fields opts"
  "deep_diff_contrast_config (native_options opts) = deep_diff_contrast_config opts"
  by (simp_all add: native_options_def)


lemma no_redundant_simps [simp]:
  "no_redundant (Inl e)" "no_redundant (Inr ds) = (\<forall>p. RedundantField p \<notin> set ds)"
  by (auto simp: no_redundant_def redundant_paths_def)

lemma no_missing_simps [simp]:
  "no_missing (Inl e)" "no_missing (Inr ds) = (\<forall>p. MissingField p \<notin> set ds)"
  by (auto simp: no_missing_def missing_paths_def)




lemma list_leaf_kinds:
  "compare_list_leaf fo a b p opts = Inr ds \<Longrightarrow>
   \<forall>d \<in> set ds. d = TypeConflict p \<or> d = ValueChanged p"
  by (auto simp: compare_list_leaf_def Let_def split: sum.splits if_splits)



lemma no_redundant_list_leaf [simp]: "no_redundant (compare_list_leaf fo a b p opts)"
  by (cases "compare_list_leaf fo a b p opts") (auto dest: list_leaf_kinds)

lemma no_missing_list_leaf [simp]: "no_missing (compare_list_leaf fo a b p opts)"
  by (cases "compare_list_leaf fo a b p opts") (auto dest: list_leaf_kinds)

lemma removed_added_kinds [simp]:
  "MissingField p \<notin> set (removed_items om n path opts)"
  "RedundantField p \<notin> set (removed_items om n path opts)"
  "MissingField p \<notin> set (added_items cm m n path opts)"
  "RedundantField p \<notin> set (added_items cm m n path opts)"
  by (auto simp: removed_items_def added_items_def)




lemma missing_options_simps [simp]:
  "check_value missing_options" "check_missing missing_options" "\<not> check_redundant missing_options" "check_type missing_options"
  "deep_diff_contrast_config missing_options = default_config"
  "normalize_options missing_options = missing_options" "native_options missing_options = missing_options"
  by (simp_all add: missing_options_def normalize_options_def default_options_def native_options_def)

lemma redundant_options_simps [simp]:
  "check_value redundant_options" "check_missing redundant_options" "check_redundant redundant_options" "check_type redundant_options"
  "deep_diff_contrast_config redundant_options = default_config"
  "normalize_options redundant_options = redundant_options" "native_options redundant_options = missing_options"
  "exclude_fields redundant_options = exclude_fields missing_options"
  by (simp_all add: redundant_options_def missing_options_def normalize_options_def default_options_def native_options_def)

lemma default_config_simps [simp]:
  "ignore_type_in_groups default_config = []" "get_ignore_order default_config"
  by (simp_all add: default_config_def get_ignore_order_def)















lemma missing_redundant_fields [simp]:
  "MissingField q \<notin> set (redundant_fields ks cd p opts)"
  by (auto simp: redundant_fields_def)








section \<open>The special values (C8)\<close>

text \<open>
  The \<open>ValueChanged\<close> records of a comparison with \<open>check_value\<close> false are those of
  \<open>_special_value_check\<close> on the scalar leaves: the loop over the keys of the origin map skips
  an excluded path, a member or an element that is a map or a sequence is compared by the
  recursive call, and no other branch of that mode writes a \<open>ValueChanged\<close> record.
\<close>

lemma value_changed_paths_append:
  "value_changed_paths (ds @ ds') = value_changed_paths ds @ value_changed_paths ds'"
  by (induction ds rule: value_changed_paths.induct) simp_all

lemma value_changed_paths_redundant [simp]:
  "value_changed_paths (redundant_fields keys current_dict path opts) = []"
  unfolding redundant_fields_def
  by (induction current_dict) (simp_all add: value_changed_paths_append)











text \<open>
  The booleans are left out of the statement above. \<open>_special_value_check\<close> asks
  \<open>isinstance(v, int)\<close>, which holds of a \<open>bool\<close>, where \<open>_type_detail\<close> and \<open>_format_value\<close> ask
  for \<open>bool\<close> before \<open>int\<close>: the flag that goes from \<open>True\<close> to \<open>False\<close> is reported with the
  warning of an integer that became negative or zero.
\<close>

lemma special_value_bool_flag:
  "compare_structures int_floats (PDict [(''flag'', PBool True)])
     (PDict [(''flag'', PBool False)]) [] (default_options \<lparr> check_value := False \<rparr>)
     = Inr [ValueChanged ''flag'']"
  by (simp add: eval_defs)

end
